theory Spec2Isabelle
  imports Complex_Main "HOL-Library.Log_Nat"
begin

chapter \<open>The program\<close>

section \<open>Numbers and vectors\<close>

text \<open>
  JavaScript numbers are IEEE doubles. The model takes their values in \<^typ>\<open>real\<close>, without
  infinities or NaN: where the source depends on an infinity or on a division by zero, the model
  writes the case out.

  An operation on doubles returns the double nearest to the exact result, ties going to the even
  significand. \<open>fl\<close> is that rounding for 53-bit significands, with the exponent unbounded (no
  overflow, no subnormal numbers): \<open>exponentOf x\<close> is the integer \<open>e\<close> with
  \<open>2\<^sup>e \<le> |x| < 2\<^sup>e\<^sup>+\<^sup>1\<close>, and \<open>x\<close> is rounded to a multiple of \<open>2\<^sup>e\<^sup>-\<^sup>5\<^sup>2\<close>.

  The rounding is written out where the last bit of a result decides what the slicer returns:
  in the layer count and the slice positions of \<^verbatim>\<open>sliceModel\<close>, which are compared with the
  bounding boxes of the tree, and in \<^verbatim>\<open>lerpVectors\<close>, whose points are compared with one another.
  The remaining arithmetic (distances, tolerances, the quotient of \<^verbatim>\<open>checkEdge\<close>, the progress
  percentage) is read exactly.
\<close>

definition pow2 :: "int \<Rightarrow> real" where
  "pow2 k = (if 0 \<le> k then 2 ^ nat k else 1 / 2 ^ nat (- k))"

definition exponentOf :: "real \<Rightarrow> int" where
  "exponentOf x =
     (if 1 \<le> \<bar>x\<bar> then int (floorlog 2 (nat \<lfloor>\<bar>x\<bar>\<rfloor>)) - 1
      else - int (floorlog 2 (nat (\<lceil>1 / \<bar>x\<bar>\<rceil> - 1))))"

definition roundHalfEven :: "real \<Rightarrow> int" where
  "roundHalfEven y =
     (let f = \<lfloor>y\<rfloor>; d = y - of_int f
      in if d < 1 / 2 then f else if d > 1 / 2 then f + 1 else if even f then f else f + 1)"

definition fl :: "real \<Rightarrow> real" where
  "fl x = (if x = 0 then 0
           else (let ulp = pow2 (exponentOf x - 52)
                 in of_int (roundHalfEven (x / ulp)) * ulp))"

text \<open>
  \<^verbatim>\<open>THREE.Vector2\<close> and \<^verbatim>\<open>THREE.Vector3\<close> are value records of coordinates; \<^verbatim>\<open>clone()\<close> is
  the identity on values.
\<close>

datatype Axis = X | Y | Z

datatype Vector2 = Vector2 (vx: real) (vy: real)

datatype Vector3 = Vector3 (px: real) (py: real) (pz: real)

text \<open>\<^verbatim>\<open>Vector2.distanceTo\<close> and \<^verbatim>\<open>Vector3.distanceTo\<close>: the Euclidean distance.\<close>

definition distanceTo :: "Vector2 \<Rightarrow> Vector2 \<Rightarrow> real" where
  "distanceTo p q = sqrt ((vx p - vx q) * (vx p - vx q) + (vy p - vy q) * (vy p - vy q))"

definition distanceTo3 :: "Vector3 \<Rightarrow> Vector3 \<Rightarrow> real" where
  "distanceTo3 p q =
     sqrt ((px p - px q) * (px p - px q) + (py p - py q) * (py p - py q)
           + (pz p - pz q) * (pz p - pz q))"

text \<open>\<^verbatim>\<open>Vector3.lerpVectors(v1, v2, alpha)\<close>: \<^verbatim>\<open>v1 + (v2 - v1) * alpha\<close> in every coordinate,
  each of the three operations rounded.\<close>

definition lerpVectors :: "Vector3 \<Rightarrow> Vector3 \<Rightarrow> real \<Rightarrow> Vector3" where
  "lerpVectors v1 v2 alpha =
     Vector3 (fl (px v1 + fl (fl (px v2 - px v1) * alpha)))
             (fl (py v1 + fl (fl (py v2 - py v1) * alpha)))
             (fl (pz v1 + fl (fl (pz v2 - pz v1) * alpha)))"

text \<open>The coordinate of a point along the slicing axis
  (\<^verbatim>\<open>axis === 'x' ? v.x : axis === 'y' ? v.y : v.z\<close>).\<close>

fun axisCoord :: "Axis \<Rightarrow> Vector3 \<Rightarrow> real" where
  "axisCoord X v = px v"
| "axisCoord Y v = py v"
| "axisCoord Z v = pz v"

section \<open>BVHSlicer.ts: plane and triangle intersection\<close>

record Box3 =
  bmin :: Vector3
  bmax :: Vector3

record Triangle =
  tri_a :: Vector3
  tri_b :: Vector3
  tri_c :: Vector3

text \<open>
  \<^verbatim>\<open>MeshBVH\<close> comes from the third-party package three-mesh-bvh. Its tree is taken as data:
  every node carries its bounding box, a leaf carries the triangles stored under it (with their
  vertex coordinates already read from the geometry). \<^verbatim>\<open>shapecast\<close> descends into a node only
  when \<^verbatim>\<open>intersectsBounds\<close> accepts its box and offers every triangle of a reached leaf to
  \<^verbatim>\<open>intersectsTriangle\<close>; the slicer's callback always answers \<^verbatim>\<open>false\<close>, so the traversal never
  stops early.
\<close>

datatype MeshBVH = BVHLeaf Box3 "Triangle list" | BVHNode Box3 MeshBVH MeshBVH

fun shapecast :: "(Box3 \<Rightarrow> bool) \<Rightarrow> MeshBVH \<Rightarrow> Triangle list" where
  "shapecast intersectsBounds (BVHLeaf box tris) =
     (if intersectsBounds box then tris else [])"
| "shapecast intersectsBounds (BVHNode box l r) =
     (if intersectsBounds box
      then shapecast intersectsBounds l @ shapecast intersectsBounds r else [])"

definition EDGE_EPS :: real where
  "EDGE_EPS = 1 / 10 ^ 12"

definition intersectsBounds :: "Axis \<Rightarrow> real \<Rightarrow> Box3 \<Rightarrow> bool" where
  "intersectsBounds axis position box =
     (let axisMin = axisCoord axis (bmin box);
          axisMax = axisCoord axis (bmax box)
      in axisMin \<le> position \<and> axisMax \<ge> position)"

text \<open>\<^verbatim>\<open>checkEdge\<close> pushes at most one point; the model returns it as an option.\<close>

definition checkEdge :: "Axis \<Rightarrow> real \<Rightarrow> Vector3 \<Rightarrow> Vector3 \<Rightarrow> Vector3 option" where
  "checkEdge axis position start end =
     (let a = axisCoord axis start;
          b = axisCoord axis end
      in if (a \<le> position \<and> b \<ge> position) \<or> (a \<ge> position \<and> b \<le> position)
         then (let denom = b - a
               in if \<bar>denom\<bar> < EDGE_EPS then None
                  else (let t = max 0 (min 1 ((position - a) / denom))
                        in Some (lerpVectors start end t)))
         else None)"

text \<open>The three calls \<^verbatim>\<open>checkEdge(v1, v2); checkEdge(v2, v3); checkEdge(v3, v1)\<close>, in order.\<close>

definition intersectionPoints :: "Axis \<Rightarrow> real \<Rightarrow> Triangle \<Rightarrow> Vector3 list" where
  "intersectionPoints axis position tri =
     (let v1 = tri_a tri; v2 = tri_b tri; v3 = tri_c tri
      in List.map_filter id
           [checkEdge axis position v1 v2,
            checkEdge axis position v2 v3,
            checkEdge axis position v3 v1])"

text \<open>The inner loop of the vertex-touching branch: a point is kept unless it lies within
  \<^verbatim>\<open>EDGE_EPS\<close> of a point already kept.\<close>

definition dedupStep :: "Vector3 list \<Rightarrow> Vector3 \<Rightarrow> Vector3 list" where
  "dedupStep deduped p =
     (if list_ex (\<lambda>existing. distanceTo3 p existing < EDGE_EPS) deduped
      then deduped else deduped @ [p])"

definition dedupPoints :: "Vector3 list \<Rightarrow> Vector3 list" where
  "dedupPoints pts = foldl dedupStep [hd pts] (tl pts)"

text \<open>What \<^verbatim>\<open>intersectsTriangle\<close> appends to \<^verbatim>\<open>intersectedEdges\<close> for one triangle.\<close>

definition intersectsTriangle :: "Axis \<Rightarrow> real \<Rightarrow> Triangle \<Rightarrow> Vector3 list option" where
  "intersectsTriangle axis position tri =
     (let pts = intersectionPoints axis position tri
      in if length pts = 2 then Some pts
         else if length pts = 3
              then (let deduped = dedupPoints pts
                    in if length deduped = 2 then Some deduped else None)
              else None)"

record BufferGeometry =
  positionAttr :: "Vector3 list option"
  indexAttr :: "nat list option"

text \<open>\<^verbatim>\<open>sliceAtPlane\<close>, given the geometry the slicer object refers to and its tree.\<close>

definition sliceAtPlane :: "BufferGeometry \<Rightarrow> MeshBVH \<Rightarrow> real \<Rightarrow> Axis \<Rightarrow> Vector3 list list" where
  "sliceAtPlane geom bvh pos axis =
     (if positionAttr geom = None \<or> indexAttr geom = None then []
      else List.map_filter (intersectsTriangle axis pos)
             (shapecast (intersectsBounds axis pos) bvh))"

section \<open>StlSlicer.ts: bounds, projection and path building\<close>

record PathBounds =
  minX :: real
  maxX :: real
  minY :: real
  maxY :: real

text \<open>
  \<^verbatim>\<open>computePathBounds\<close> starts its four accumulators at \<^verbatim>\<open>Infinity\<close> and \<^verbatim>\<open>-Infinity\<close>. Every
  real coordinate is below the one and above the other, so the first point scanned replaces all
  four at once: the accumulators are either all still infinite (\<open>None\<close>) or all finite.
\<close>

fun scanPoint :: "PathBounds option \<Rightarrow> Vector2 \<Rightarrow> PathBounds option" where
  "scanPoint None point =
     Some \<lparr>minX = vx point, maxX = vx point, minY = vy point, maxY = vy point\<rparr>"
| "scanPoint (Some b) point =
     Some \<lparr>minX = (if vx point < minX b then vx point else minX b),
           maxX = (if vx point > maxX b then vx point else maxX b),
           minY = (if vy point < minY b then vy point else minY b),
           maxY = (if vy point > maxY b then vy point else maxY b)\<rparr>"

definition computePathBounds :: "Vector2 list list \<Rightarrow> PathBounds" where
  "computePathBounds paths =
     (case foldl (foldl scanPoint) None paths of
        None \<Rightarrow> \<lparr>minX = 0, maxX = 0, minY = 0, maxY = 0\<rparr>
      | Some b \<Rightarrow> b)"

text \<open>
  \<^verbatim>\<open>convertTo2D\<close> tests its argument at run time, so the argument is a JavaScript value: missing
  (\<^verbatim>\<open>null\<close> or \<^verbatim>\<open>undefined\<close>), or an object whose three fields are each a number or a value of
  another type.
\<close>

datatype JSValue = JSNumber real | JSNonNumber

datatype JSPoint = Missing | Point JSValue JSValue JSValue

fun convertTo2D :: "JSPoint \<Rightarrow> Axis \<Rightarrow> Vector2" where
  "convertTo2D (Point (JSNumber x) (JSNumber y) (JSNumber z)) axis =
     (case axis of X \<Rightarrow> Vector2 y z | Y \<Rightarrow> Vector2 x z | Z \<Rightarrow> Vector2 x y)"
| "convertTo2D point axis = Vector2 0 0"

definition ofVector3 :: "Vector3 \<Rightarrow> JSPoint" where
  "ofVector3 v = Point (JSNumber (px v)) (JSNumber (py v)) (JSNumber (pz v))"

subsection \<open>Tolerances\<close>

definition safeDiag :: "real \<Rightarrow> real" where
  "safeDiag diagonal = max diagonal (1 / 10 ^ 10)"

definition TOLERANCE :: "real \<Rightarrow> real" where
  "TOLERANCE diagonal = safeDiag diagonal * (1 / 10 ^ 5)"

definition ZERO_LENGTH_TOL :: "real \<Rightarrow> real" where
  "ZERO_LENGTH_TOL diagonal = safeDiag diagonal * (1 / 10 ^ 6)"

definition MIN_PATH_LENGTH :: "real \<Rightarrow> real" where
  "MIN_PATH_LENGTH diagonal = safeDiag diagonal * (1 / 10 ^ 3)"

definition FALLBACK_RADIUS :: "real \<Rightarrow> real" where
  "FALLBACK_RADIUS diagonal = safeDiag diagonal * (1 / 10 ^ 4)"

subsection \<open>Segments\<close>

type_synonym Segment = "Vector2 \<times> Vector2"

text \<open>One round of the loop over \<^verbatim>\<open>edges\<close>: the 2D segment pushed for an edge, if any.\<close>

fun toSegment :: "Axis \<Rightarrow> real \<Rightarrow> JSPoint list \<Rightarrow> Segment option" where
  "toSegment axis zeroTol [e0, e1] =
     (if e0 = Missing \<or> e1 = Missing then None
      else (let p1 = convertTo2D e0 axis;
                p2 = convertTo2D e1 axis
            in if distanceTo p1 p2 > zeroTol then Some (p1, p2) else None))"
| "toSegment axis zeroTol edge = None"

definition toSegments :: "Axis \<Rightarrow> real \<Rightarrow> JSPoint list list \<Rightarrow> Segment list" where
  "toSegments axis zeroTol edges = List.map_filter (toSegment axis zeroTol) edges"

text \<open>\<^verbatim>\<open>segments[i][endIdx]\<close>.\<close>

definition segEnd :: "Segment \<Rightarrow> nat \<Rightarrow> Vector2" where
  "segEnd seg endIdx = (if endIdx = 0 then fst seg else snd seg)"

subsection \<open>The graph of nodes\<close>

text \<open>
  \<^verbatim>\<open>connections\<close> is a JavaScript \<^verbatim>\<open>Set\<close>, which iterates in insertion order: a list without
  repetitions, extended at the end.
\<close>

record Node =
  nposition :: Vector2
  connections :: "nat list"
  used :: bool

definition setAdd :: "nat list \<Rightarrow> nat \<Rightarrow> nat list" where
  "setAdd xs v = (if v \<in> set xs then xs else xs @ [v])"

text \<open>
  \<^verbatim>\<open>nodes[i]\<close>. Outside the array JavaScript yields \<^verbatim>\<open>undefined\<close> and reading a field of it
  raises; the graph only ever stores indices of existing nodes and the walks only move along
  its connections (lemmas \<open>buildGraph_in_range\<close> and \<open>next_in_range\<close> below), so they never
  get there. The model reads an isolated node there, marked used.
\<close>

definition node :: "Node list \<Rightarrow> nat \<Rightarrow> Node" where
  "node ns i =
     (if i < length ns then ns ! i
      else \<lparr>nposition = Vector2 0 0, connections = [], used = True\<rparr>)"

definition setUsed :: "Node list \<Rightarrow> nat \<Rightarrow> bool \<Rightarrow> Node list" where
  "setUsed ns i b = (if i < length ns then ns[i := (ns ! i)\<lparr>used := b\<rparr>] else ns)"

text \<open>\<^verbatim>\<open>Math.round\<close> rounds to the nearest integer, halves upwards.\<close>

definition js_round :: "real \<Rightarrow> int" where
  "js_round v = \<lfloor>v + 1 / 2\<rfloor>"

text \<open>The key is the string \<^verbatim>\<open>"<rx>,<ry>"\<close> of two rounded quotients; the pair of integers
  determines it and is determined by it.\<close>

type_synonym PointKey = "int \<times> int"

definition getPointKey :: "real \<Rightarrow> Vector2 \<Rightarrow> PointKey" where
  "getPointKey tol point = (js_round (vx point / tol), js_round (vy point / tol))"

record Graph =
  nodes :: "Node list"
  nodeMap :: "PointKey \<rightharpoonup> nat"

definition getNodeIndex :: "real \<Rightarrow> Graph \<Rightarrow> Vector2 \<Rightarrow> nat \<times> Graph" where
  "getNodeIndex tol g point =
     (let key = getPointKey tol point
      in case nodeMap g key of
           Some i \<Rightarrow> (i, g)
         | None \<Rightarrow>
             (let i = length (nodes g)
              in (i, \<lparr>nodes = nodes g @ [\<lparr>nposition = point, connections = [], used = False\<rparr>],
                      nodeMap = (nodeMap g)(key \<mapsto> i)\<rparr>)))"

definition addConnection :: "Node list \<Rightarrow> nat \<Rightarrow> nat \<Rightarrow> Node list" where
  "addConnection ns i j =
     (if i < length ns then ns[i := (ns ! i)\<lparr>connections := setAdd (connections (ns ! i)) j\<rparr>]
      else ns)"

definition addSegment :: "real \<Rightarrow> Graph \<Rightarrow> Segment \<Rightarrow> Graph" where
  "addSegment tol g seg =
     (let (i1, g1) = getNodeIndex tol g (fst seg);
          (i2, g2) = getNodeIndex tol g1 (snd seg)
      in if i1 \<noteq> i2
         then g2\<lparr>nodes := addConnection (addConnection (nodes g2) i1 i2) i2 i1\<rparr>
         else g2)"

definition buildGraph :: "real \<Rightarrow> Segment list \<Rightarrow> Graph" where
  "buildGraph tol segments = foldl (addSegment tol) \<lparr>nodes = [], nodeMap = Map.empty\<rparr> segments"

subsection \<open>Choosing the next node at a junction\<close>

text \<open>
  \<^verbatim>\<open>Math.atan2(y, x)\<close> on real arguments (no signed zero): the angle of the point \<open>(x, y)\<close>
  in \<open>(-\<pi>, \<pi>]\<close>, and \<open>0\<close> at the origin.
\<close>

definition atan2 :: "real \<Rightarrow> real \<Rightarrow> real" where
  "atan2 y x =
     (if x > 0 then arctan (y / x)
      else if x < 0 then (if y \<ge> 0 then arctan (y / x) + pi else arctan (y / x) - pi)
      else if y > 0 then pi / 2
      else if y < 0 then - (pi / 2)
      else 0)"

definition angleDiff :: "Vector2 \<Rightarrow> Vector2 \<Rightarrow> Vector2 \<Rightarrow> real" where
  "angleDiff prev cur cand =
     (let inAngle = atan2 (vy cur - vy prev) (vx cur - vx prev);
          outAngle = atan2 (vy cand - vy cur) (vx cand - vx cur);
          diff = \<bar>outAngle - inAngle\<bar>
      in if diff > pi then 2 * pi - diff else diff)"

text \<open>The loop over the candidates keeps \<^verbatim>\<open>bestIdx\<close> and \<^verbatim>\<open>bestAngleDiff\<close>; before the first
  candidate they are \<^verbatim>\<open>null\<close> and \<^verbatim>\<open>Infinity\<close> (\<open>None\<close>).\<close>

definition angleStep :: "Node list \<Rightarrow> nat \<Rightarrow> nat \<Rightarrow> (nat \<times> real) option \<Rightarrow> nat \<Rightarrow> (nat \<times> real) option" where
  "angleStep ns prevIdx currentIdx best candIdx =
     (let diff = angleDiff (nposition (node ns prevIdx)) (nposition (node ns currentIdx))
                   (nposition (node ns candIdx))
      in case best of
           None \<Rightarrow> Some (candIdx, diff)
         | Some (bestIdx, bestAngleDiff) \<Rightarrow>
             if diff < bestAngleDiff then Some (candIdx, diff) else best)"

definition chooseBestConnection :: "Node list \<Rightarrow> nat option \<Rightarrow> nat \<Rightarrow> nat list \<Rightarrow> nat option" where
  "chooseBestConnection ns prevIdx currentIdx exclude =
     (let candidates = filter (\<lambda>connIdx. connIdx \<notin> set exclude) (connections (node ns currentIdx))
      in if length candidates = 0 then None
         else if length candidates = 1 then Some (candidates ! 0)
         else case prevIdx of
                None \<Rightarrow> Some (candidates ! 0)
              | Some prev \<Rightarrow>
                  map_option fst (foldl (angleStep ns prev currentIdx) None candidates))"

subsection \<open>First pass: findContours\<close>

text \<open>
  The comparator of \<^verbatim>\<open>startOrder\<close> orders the indices by class (degree 1, then degree 2, then
  every other degree) and by index inside a class. It is a strict total order, so the sorted
  array is the three classes one after the other, each in ascending index order.
\<close>

definition degree :: "Node list \<Rightarrow> nat \<Rightarrow> nat" where
  "degree ns i = length (connections (node ns i))"

definition startOrder :: "Node list \<Rightarrow> nat list" where
  "startOrder ns =
     filter (\<lambda>i. degree ns i = 1) [0..<length ns]
     @ filter (\<lambda>i. degree ns i = 2) [0..<length ns]
     @ filter (\<lambda>i. degree ns i \<noteq> 1 \<and> degree ns i \<noteq> 2) [0..<length ns]"

text \<open>
  The \<^verbatim>\<open>while (!complete)\<close> loop of one trace. It returns the nodes (with the marks it set), the
  path, the indices of the path's nodes, \<^verbatim>\<open>complete\<close> and \<^verbatim>\<open>length\<close>. \<open>nsegs\<close> is
  \<^verbatim>\<open>segments.length\<close>, for the safety check.
\<close>

function traceContour ::
  "nat \<Rightarrow> nat \<Rightarrow> Node list \<Rightarrow> Vector2 list \<Rightarrow> nat list \<Rightarrow> nat option \<Rightarrow> nat \<Rightarrow> real
    \<Rightarrow> Node list \<times> Vector2 list \<times> nat list \<times> bool \<times> real" where
  "traceContour nsegs startIdx ns path pathNodeIndices prevIdx currentIdx len =
     (case chooseBestConnection ns prevIdx currentIdx (removeAll startIdx pathNodeIndices) of
        None \<Rightarrow> (ns, path, pathNodeIndices, False, len)
      | Some nextIdx \<Rightarrow>
          if nextIdx = startIdx
          then (ns, path, pathNodeIndices, True,
                len + distanceTo (nposition (node ns currentIdx)) (nposition (node ns startIdx)))
          else (let path' = path @ [nposition (node ns nextIdx)];
                    pathNodeIndices' = pathNodeIndices @ [nextIdx];
                    ns' = setUsed ns nextIdx True;
                    len' = (if length path' > 1
                            then len + distanceTo (path' ! (length path' - 1))
                                                  (path' ! (length path' - 2))
                            else len)
                in if length path' > nsegs * 2
                   then (ns', path', pathNodeIndices', False, len')
                   else traceContour nsegs startIdx ns' path' pathNodeIndices'
                          (Some currentIdx) nextIdx len'))"
  by pat_completeness auto

termination
  by (relation "measure (\<lambda>(nsegs, startIdx, ns, path, pathNodeIndices, prevIdx, currentIdx, len).
                    nsegs * 2 + 1 - length path)") auto

declare traceContour.simps [simp del]

text \<open>The body of the loop over \<^verbatim>\<open>startOrder\<close>: the state is the node array and \<^verbatim>\<open>paths\<close>.\<close>

definition contourStep ::
  "real \<Rightarrow> nat \<Rightarrow> Node list \<times> Vector2 list list \<Rightarrow> nat \<Rightarrow> Node list \<times> Vector2 list list" where
  "contourStep diagonal nsegs st startIdx =
     (let (ns, paths) = st
      in if used (node ns startIdx) then (ns, paths)
         else if length (connections (node ns startIdx)) > 2 then (ns, paths)
         else (let (ns1, path, pathNodeIndices, complete, len) =
                     traceContour nsegs startIdx (setUsed ns startIdx True)
                       [nposition (node ns startIdx)] [startIdx] None startIdx 0
               in if length path \<ge> 3 \<and> len > MIN_PATH_LENGTH diagonal
                  then (ns1,
                        paths @ [if complete
                                    \<and> distanceTo (path ! 0) (path ! (length path - 1))
                                        > TOLERANCE diagonal
                                 then path @ [path ! 0] else path])
                  else (foldl (\<lambda>n idx. setUsed n idx False) ns1 pathNodeIndices, paths)))"

definition findContours ::
  "real \<Rightarrow> nat \<Rightarrow> Node list \<Rightarrow> Node list \<times> Vector2 list list" where
  "findContours diagonal nsegs ns = foldl (contourStep diagonal nsegs) (ns, []) (startOrder ns)"

subsection \<open>Second pass: handleRemainingSegments\<close>

definition bestNextStep :: "Node list \<Rightarrow> nat list \<Rightarrow> (nat \<times> nat) option \<Rightarrow> nat \<Rightarrow> (nat \<times> nat) option" where
  "bestNextStep ns visited best nextIdx =
     (if nextIdx \<in> set visited then best
      else if used (node ns nextIdx) then best
      else (let score = length (connections (node ns nextIdx))
            in case best of
                 None \<Rightarrow> Some (nextIdx, score)
               | Some (bestNextIdx, bestScore) \<Rightarrow>
                   if score < bestScore then Some (nextIdx, score) else best))"

definition findBestNextNode :: "Node list \<Rightarrow> nat \<Rightarrow> nat list \<Rightarrow> nat option" where
  "findBestNextNode ns currentIdx visited =
     map_option fst (foldl (bestNextStep ns visited) None (connections (node ns currentIdx)))"

text \<open>
  The two \<^verbatim>\<open>while (true)\<close> loops of the second pass differ only in where the new point goes:
  the forward one pushes it at the end of its path, the backward one puts it in front
  (\<^verbatim>\<open>unshift\<close>). Each returns its visited set, its path and the running \<^verbatim>\<open>length\<close>.
\<close>

function extendWalk ::
  "bool \<Rightarrow> Node list \<Rightarrow> nat \<Rightarrow> nat list \<Rightarrow> Vector2 list \<Rightarrow> real
    \<Rightarrow> nat list \<times> Vector2 list \<times> real" where
  "extendWalk forward ns idx visited path len =
     (case findBestNextNode ns idx visited of
        None \<Rightarrow> (visited, path, len)
      | Some nextIdx \<Rightarrow>
          extendWalk forward ns nextIdx (setAdd visited nextIdx)
            (if forward then path @ [nposition (node ns nextIdx)]
             else nposition (node ns nextIdx) # path)
            (len + distanceTo (nposition (node ns nextIdx)) (nposition (node ns idx))))"
  by pat_completeness auto

text \<open>How the second pass records an accepted path: closed as it is, closed by a copy of its
  first point when its two end nodes are joined in the graph, or open.\<close>

definition closeIfConnected ::
  "real \<Rightarrow> Node list \<Rightarrow> (PointKey \<rightharpoonup> nat) \<Rightarrow> Vector2 list \<Rightarrow> Vector2 list" where
  "closeIfConnected tol ns nmap fullPath =
     (let first = fullPath ! 0;
          last = fullPath ! (length fullPath - 1)
      in if distanceTo first last < tol then fullPath
         else (case nmap (getPointKey tol first) of
                 None \<Rightarrow> fullPath
               | Some startNodeIdx \<Rightarrow>
                   (case nmap (getPointKey tol last) of
                      None \<Rightarrow> fullPath
                    | Some endNodeIdx \<Rightarrow>
                        if endNodeIdx \<in> set (connections (node ns startNodeIdx))
                        then fullPath @ [first] else fullPath)))"

definition remainingStep ::
  "real \<Rightarrow> (PointKey \<rightharpoonup> nat) \<Rightarrow> Node list \<times> Vector2 list list \<Rightarrow> nat
    \<Rightarrow> Node list \<times> Vector2 list list" where
  "remainingStep diagonal nmap st i =
     (let (ns, paths) = st
      in if used (node ns i) then (ns, paths)
         else (let (forwardVisited, forwardPath, len1) =
                     extendWalk True ns i [i] [nposition (node ns i)] 0;
                   (backwardVisited, reversePath, len) =
                     extendWalk False ns i [i] [] len1;
                   fullPath = reversePath @ forwardPath
               in if length fullPath \<ge> 3 \<and> len > MIN_PATH_LENGTH diagonal
                  then (let ns' = foldl (\<lambda>n idx. setUsed n idx True)
                                    (foldl (\<lambda>n idx. setUsed n idx True) ns forwardVisited)
                                    backwardVisited
                        in (ns', paths @ [closeIfConnected (TOLERANCE diagonal) ns' nmap fullPath]))
                  else (ns, paths)))"

definition handleRemainingSegments ::
  "real \<Rightarrow> (PointKey \<rightharpoonup> nat) \<Rightarrow> Node list \<times> Vector2 list list \<Rightarrow> Node list \<times> Vector2 list list" where
  "handleRemainingSegments diagonal nmap st =
     (let (ns, paths) = st
      in if length (filter (\<lambda>n. \<not> used n) ns) = 0 then (ns, paths)
         else foldl (remainingStep diagonal nmap) (ns, paths) [0..<length ns])"

subsection \<open>Fallback: chaining whole segments\<close>

text \<open>
  \<^verbatim>\<open>findClosestSegment\<close> scans the ends \<^verbatim>\<open>(i, 0)\<close>, \<^verbatim>\<open>(i, 1)\<close> of every segment outside
  \<^verbatim>\<open>excludeSet\<close>, in order. It keeps the best end found (\<open>None\<close> for \<^verbatim>\<open>bestSegIdx === -1\<close>) and
  \<^verbatim>\<open>bestDist\<close>, which starts at the fallback radius.
\<close>

definition closestStep ::
  "Segment list \<Rightarrow> Vector2 \<Rightarrow> (nat \<times> nat) option \<times> real \<Rightarrow> nat \<times> nat \<Rightarrow> (nat \<times> nat) option \<times> real" where
  "closestStep segments point best cand =
     (let (i, endIdx) = cand;
          dist = distanceTo point (segEnd (segments ! i) endIdx)
      in if dist < snd best then (Some (i, endIdx), dist) else best)"

definition segmentEnds :: "Segment list \<Rightarrow> nat set \<Rightarrow> (nat \<times> nat) list" where
  "segmentEnds segments excludeSet =
     concat (map (\<lambda>i. if i \<in> excludeSet then [] else [(i, 0), (i, 1)]) [0..<length segments])"

definition findClosestSegment ::
  "real \<Rightarrow> Segment list \<Rightarrow> Vector2 \<Rightarrow> nat set \<Rightarrow> (nat \<times> nat) option" where
  "findClosestSegment radius segments point excludeSet =
     fst (foldl (closestStep segments point) (None, radius) (segmentEnds segments excludeSet))"

text \<open>
  The two \<^verbatim>\<open>while (extended)\<close> loops. \<open>atTail\<close> tells the forward loop, which looks from the
  last point and pushes, from the backward loop, which looks from the first point and unshifts.
  They return the path and \<^verbatim>\<open>usedSegments\<close>.
\<close>

function extendChain ::
  "bool \<Rightarrow> real \<Rightarrow> Segment list \<Rightarrow> Vector2 list \<Rightarrow> nat set \<Rightarrow> Vector2 list \<times> nat set" where
  "extendChain atTail radius segments path usedSegments =
     (case findClosestSegment radius segments
             (if atTail then path ! (length path - 1) else path ! 0) usedSegments of
        None \<Rightarrow> (path, usedSegments)
      | Some (segIdx, endIdx) \<Rightarrow>
          (let seg = segments ! segIdx;
               other = (if endIdx = 0 then snd seg else fst seg)
           in extendChain atTail radius segments
                (if atTail then path @ [other] else other # path)
                (insert segIdx usedSegments)))"
  by pat_completeness auto

text \<open>The body of the loop over the segments: the state is \<^verbatim>\<open>usedSegments\<close> and \<^verbatim>\<open>paths\<close>.\<close>

definition fallbackStep ::
  "real \<Rightarrow> Segment list \<Rightarrow> nat set \<times> Vector2 list list \<Rightarrow> nat \<Rightarrow> nat set \<times> Vector2 list list" where
  "fallbackStep radius segments st i =
     (let (usedSegments, paths) = st
      in if i \<in> usedSegments then (usedSegments, paths)
         else (let path0 = [fst (segments ! i), snd (segments ! i)];
                   (path1, used1) = extendChain True radius segments path0 (insert i usedSegments);
                   (path2, used2) = extendChain False radius segments path1 used1
               in (used2, if length path2 \<ge> 3 then paths @ [path2] else paths)))"

definition fallbackPaths :: "real \<Rightarrow> Segment list \<Rightarrow> Vector2 list list" where
  "fallbackPaths radius segments =
     snd (foldl (fallbackStep radius segments) ({}, []) [0..<length segments])"

subsection \<open>Final cleanup and buildPaths\<close>

definition finalCleanup :: "real \<Rightarrow> Vector2 list \<Rightarrow> Vector2 list" where
  "finalCleanup tol path =
     (if length path < 3 then path
      else (let first = path ! 0;
                last = path ! (length path - 1);
                gap = distanceTo first last
            in if gap > 0 \<and> gap \<le> tol then path @ [first] else path))"

text \<open>The paths of the two graph passes, before the fallback is considered.\<close>

definition graphPaths :: "real \<Rightarrow> Segment list \<Rightarrow> Vector2 list list" where
  "graphPaths diagonal segments =
     (let g = buildGraph (TOLERANCE diagonal) segments
      in snd (handleRemainingSegments diagonal (nodeMap g)
                (findContours diagonal (length segments) (nodes g))))"

text \<open>The paths before the final cleanup: those of the graph passes, or of the fallback when
  the graph passes found none.\<close>

definition producedPaths :: "real \<Rightarrow> Segment list \<Rightarrow> Vector2 list list" where
  "producedPaths diagonal segments =
     (let paths = graphPaths diagonal segments
      in if length paths = 0 then fallbackPaths (FALLBACK_RADIUS diagonal) segments else paths)"

definition buildPaths :: "JSPoint list list \<Rightarrow> Axis \<Rightarrow> real \<Rightarrow> Vector2 list list" where
  "buildPaths edges axis diagonal =
     (if length edges = 0 then []
      else (let segments = toSegments axis (ZERO_LENGTH_TOL diagonal) edges
            in if length segments = 0 then []
               else map (finalCleanup (TOLERANCE diagonal)) (producedPaths diagonal segments)))"

section \<open>StlSlicer.ts: the slicer object and sliceModel\<close>

text \<open>
  The slicer and its \<^verbatim>\<open>BVHSlicer\<close> hold references to one \<^verbatim>\<open>BufferGeometry\<close> object, which
  \<^verbatim>\<open>sliceModel\<close> may write to (\<^verbatim>\<open>setIndex\<close>). Geometries therefore live in a store and the
  fields hold addresses.
\<close>

type_synonym ref = nat

record BVHSlicer =
  bvh :: MeshBVH
  bvhGeometry :: ref

text \<open>The \<^verbatim>\<open>mesh\<close> field holds a \<^verbatim>\<open>THREE.Mesh\<close> around the geometry; it is kept as the address
  of that geometry.\<close>

record StlSlicer =
  heap :: "ref \<Rightarrow> BufferGeometry"
  geometry :: "ref option"
  mesh :: "ref option"
  boundingBox :: "Box3 option"
  bvhSlicer :: "BVHSlicer option"

record LayerData =
  layerIndex :: nat
  layerPaths :: "Vector2 list list"
  layerZ :: real
  layerBounds :: PathBounds

text \<open>The slicer as its constructor leaves it: no geometry exists yet, every field is
  \<^verbatim>\<open>null\<close>.\<close>

definition newSlicer :: StlSlicer where
  "newSlicer =
     \<lparr>heap = (\<lambda>a. \<lparr>positionAttr = None, indexAttr = None\<rparr>), geometry = None,
      mesh = None, boundingBox = None, bvhSlicer = None\<rparr>"

text \<open>
  The constructor of \<^verbatim>\<open>BVHSlicer\<close> on the geometry at address \<open>r\<close>: a geometry that has
  positions and no index list gets the identity index list; then the tree is built. \<open>tree\<close>
  is what \<^verbatim>\<open>new MeshBVH(geometry, { strategy: SAH })\<close> returns. While it builds the tree,
  \<^verbatim>\<open>MeshBVH\<close> may put the triangles of the index list into another order; the slicer takes its
  triangles from the tree and never reads the entries of the index list, so the model leaves
  them as they are. The result is the store afterwards and the new object.
\<close>

definition newBVHSlicer ::
  "(ref \<Rightarrow> BufferGeometry) \<Rightarrow> ref \<Rightarrow> MeshBVH \<Rightarrow> (ref \<Rightarrow> BufferGeometry) \<times> BVHSlicer" where
  "newBVHSlicer h r tree =
     (let h1 = (if indexAttr (h r) = None
                then (case positionAttr (h r) of
                        None \<Rightarrow> h
                      | Some positionAttribute \<Rightarrow>
                          h(r := (h r)\<lparr>indexAttr := Some [0..<length positionAttribute]\<rparr>))
                else h)
      in (h1, \<lparr>bvh = tree, bvhGeometry = r\<rparr>))"

text \<open>
  \<^verbatim>\<open>loadSTL\<close>, from the point where the file has been read. \<open>parsed\<close> is the geometry that
  \<^verbatim>\<open>STLLoader.parse\<close> returns, placed at the new address \<open>r\<close>; \<open>box\<close> is the bounding box that
  three.js computes for it. A parsed geometry that has positions and no index list gets the
  identity index list before anything else is done with it.
\<close>

definition loadSTL :: "StlSlicer \<Rightarrow> ref \<Rightarrow> MeshBVH \<Rightarrow> BufferGeometry \<Rightarrow> Box3 \<Rightarrow> StlSlicer" where
  "loadSTL s r tree parsed box =
     (let geometry1 = (if indexAttr parsed = None
                       then (case positionAttr parsed of
                               None \<Rightarrow> parsed
                             | Some positionAttribute \<Rightarrow>
                                 parsed\<lparr>indexAttr := Some [0..<length positionAttribute]\<rparr>)
                       else parsed);
          (h, b) = newBVHSlicer ((heap s)(r := geometry1)) r tree
      in s\<lparr>heap := h, geometry := Some r, bvhSlicer := Some b, mesh := Some r,
           boundingBox := Some box\<rparr>)"

text \<open>
  \<^verbatim>\<open>loadFromBuffers\<close> creates a geometry with the given positions and index list, and a
  \<^verbatim>\<open>BVHSlicer\<close> on that same geometry. \<open>r\<close> is the address of the new geometry and \<open>tree\<close> is
  the tree built for it. The normals that both loaders compute are never read by the slicer
  and are left out.
\<close>

definition loadFromBuffers ::
  "StlSlicer \<Rightarrow> ref \<Rightarrow> MeshBVH \<Rightarrow> Vector3 list \<Rightarrow> nat list \<Rightarrow> Vector3 \<Rightarrow> Vector3 \<Rightarrow> StlSlicer" where
  "loadFromBuffers s r tree positionArray indexArray boundingBoxMin boundingBoxMax =
     (let geometry1 = \<lparr>positionAttr = Some positionArray, indexAttr = Some indexArray\<rparr>;
          (h, b) = newBVHSlicer ((heap s)(r := geometry1)) r tree
      in s\<lparr>heap := h, geometry := Some r,
           boundingBox := Some \<lparr>bmin = boundingBoxMin, bmax = boundingBoxMax\<rparr>,
           bvhSlicer := Some b\<rparr>)"

text \<open>
  The values a call can end with other than its result: the three errors \<^verbatim>\<open>sliceModel\<close> and
  \<^verbatim>\<open>createSlice\<close> throw, the \<^verbatim>\<open>TypeError\<close> of reading through a \<^verbatim>\<open>null\<close> bounding box, and
  \<open>Diverges\<close> for a loop whose bound is \<^verbatim>\<open>Infinity\<close>.
\<close>

datatype error = NoModelLoaded | InvalidGeometry | FailedIndices | TypeError | Diverges

text \<open>\<^verbatim>\<open>Box3.getSize\<close> (zero for an empty box) and \<^verbatim>\<open>Vector3.length\<close>.\<close>

definition isEmpty :: "Box3 \<Rightarrow> bool" where
  "isEmpty box = (px (bmax box) < px (bmin box) \<or> py (bmax box) < py (bmin box)
                  \<or> pz (bmax box) < pz (bmin box))"

definition getSize :: "Box3 \<Rightarrow> Vector3" where
  "getSize box =
     (if isEmpty box then Vector3 0 0 0
      else Vector3 (px (bmax box) - px (bmin box)) (py (bmax box) - py (bmin box))
                   (pz (bmax box) - pz (bmin box)))"

definition vlength :: "Vector3 \<Rightarrow> real" where
  "vlength v = sqrt (px v * px v + py v * py v + pz v * pz v)"

definition createSlice :: "StlSlicer \<Rightarrow> real \<Rightarrow> Axis \<Rightarrow> error + Vector2 list list" where
  "createSlice s pos axis =
     (case geometry s of
        None \<Rightarrow> Inl NoModelLoaded
      | Some g \<Rightarrow>
          (case bvhSlicer s of
             None \<Rightarrow> Inl NoModelLoaded
           | Some b \<Rightarrow>
               (let intersectedEdges = sliceAtPlane (heap s (bvhGeometry b)) (bvh b) pos axis
                in case boundingBox s of
                     None \<Rightarrow> Inl TypeError
                   | Some box \<Rightarrow>
                       (let diagonal = vlength (getSize box)
                        in Inr (buildPaths (map (map ofVector3) intersectedEdges) axis diagonal)))))"

text \<open>
  \<^verbatim>\<open>Math.max(2, Math.ceil(totalHeight / layerThickness))\<close>, the quotient rounded. With a
  thickness of zero the quotient is \<^verbatim>\<open>Infinity\<close>, \<^verbatim>\<open>-Infinity\<close> or \<^verbatim>\<open>NaN\<close>, and so is the
  count, except that the maximum of 2 and \<^verbatim>\<open>-Infinity\<close> is 2.
\<close>

datatype JSCount = Finite int | PosInfinity | NaN

definition calculatedLayerCount :: "real \<Rightarrow> real \<Rightarrow> JSCount" where
  "calculatedLayerCount totalHeight layerThickness =
     (if layerThickness = 0
      then (if totalHeight > 0 then PosInfinity
            else if totalHeight < 0 then Finite 2
            else NaN)
      else Finite (max 2 \<lceil>fl (totalHeight / layerThickness)\<rceil>))"

text \<open>
  The \<^verbatim>\<open>for\<close> loop of \<^verbatim>\<open>sliceModel\<close> over the indices still to do. The slice position
  \<^verbatim>\<open>start + (i * adjustedLayerThickness)\<close> is a rounded product and a rounded sum. \<open>c\<close> is the
  state of the caller that the progress callback acts on; it is returned also when a slice
  throws.
\<close>

fun sliceLayers ::
  "StlSlicer \<Rightarrow> Axis \<Rightarrow> real \<Rightarrow> real \<Rightarrow> nat \<Rightarrow> (real \<Rightarrow> 'c \<Rightarrow> 'c) option
    \<Rightarrow> nat list \<Rightarrow> LayerData list \<Rightarrow> 'c \<Rightarrow> (error + LayerData list) \<times> 'c" where
  "sliceLayers s axis start adjustedLayerThickness count onProgress [] layers c =
     (Inr layers, c)"
| "sliceLayers s axis start adjustedLayerThickness count onProgress (i # rest) layers c =
     (let z = fl (start + fl (real i * adjustedLayerThickness))
      in case createSlice s z axis of
           Inl e \<Rightarrow> (Inl e, c)
         | Inr paths \<Rightarrow>
             sliceLayers s axis start adjustedLayerThickness count onProgress rest
               (layers @ [\<lparr>layerIndex = i, layerPaths = paths, layerZ = z,
                           layerBounds = computePathBounds paths\<rparr>])
               (case onProgress of
                  None \<Rightarrow> c
                | Some f \<Rightarrow> f ((real (i + 1) / real count) * 100) c))"

text \<open>
  \<^verbatim>\<open>sliceModel(axis, layerThickness, onProgress)\<close> returns the layers or the error, the slicer
  with its store afterwards, and the caller's state after the progress calls.
\<close>

definition sliceModel ::
  "StlSlicer \<Rightarrow> Axis \<Rightarrow> real \<Rightarrow> (real \<Rightarrow> 'c \<Rightarrow> 'c) option \<Rightarrow> 'c
    \<Rightarrow> (error + LayerData list) \<times> StlSlicer \<times> 'c" where
  "sliceModel s axis layerThickness onProgress c =
     (case geometry s of
        None \<Rightarrow> (Inl NoModelLoaded, s, c)
      | Some g \<Rightarrow>
     (case boundingBox s of
        None \<Rightarrow> (Inl NoModelLoaded, s, c)
      | Some box \<Rightarrow>
     (case positionAttr (heap s g) of
        None \<Rightarrow> (Inl InvalidGeometry, s, c)
      | Some pos \<Rightarrow>
          (let s1 = (if indexAttr (heap s g) = None
                     then s\<lparr>heap := (heap s)(g := (heap s g)\<lparr>indexAttr := Some [0..<length pos]\<rparr>)\<rparr>
                     else s)
           in if indexAttr (heap s1 g) = None then (Inl FailedIndices, s1, c)
              else (let start = axisCoord axis (bmin box);
                        end = axisCoord axis (bmax box);
                        totalHeight = fl (end - start)
                    in case calculatedLayerCount totalHeight layerThickness of
                         NaN \<Rightarrow> (Inr [], s1, c)
                       | PosInfinity \<Rightarrow>
                           (case createSlice s1 start axis of
                              Inl e \<Rightarrow> (Inl e, s1, c)
                            | Inr paths \<Rightarrow> (Inl Diverges, s1, c))
                       | Finite n \<Rightarrow>
                           (let adjustedLayerThickness = fl (totalHeight / real_of_int (n - 1));
                                (r, c') = sliceLayers s1 axis start adjustedLayerThickness (nat n)
                                            onProgress [0..<nat n] [] c
                            in (r, s1, c')))))))"

chapter \<open>Notions used in the statements\<close>

text \<open>Every index the graph holds, in a connection set or in the key map, is the index of a
  node of the graph.\<close>

definition graphInRange :: "Graph \<Rightarrow> bool" where
  "graphInRange g =
     ((\<forall>n \<in> set (nodes g). \<forall>c \<in> set (connections n). c < length (nodes g))
      \<and> (\<forall>k i. nodeMap g k = Some i \<longrightarrow> i < length (nodes g)))"

text \<open>
  The end points of the segments whose index lies in \<open>G\<close>, and what it means for the group \<open>G\<close>
  to be separated from the other segments: every end point of the one is at least the radius
  away from every end point of the other.
\<close>

definition segmentPoints :: "Segment list \<Rightarrow> nat set \<Rightarrow> Vector2 set" where
  "segmentPoints segments G =
     {segEnd (segments ! i) e | i e. i < length segments \<and> i \<in> G \<and> e < 2}"

definition separated :: "real \<Rightarrow> Segment list \<Rightarrow> nat set \<Rightarrow> bool" where
  "separated radius segments G =
     (\<forall>p \<in> segmentPoints segments G. \<forall>q \<in> segmentPoints segments (- G).
        distanceTo p q \<ge> radius)"

text \<open>A path that takes all its points from one side.\<close>

definition oneComponent :: "Segment list \<Rightarrow> nat set \<Rightarrow> Vector2 list \<Rightarrow> bool" where
  "oneComponent segments G path =
     (set path \<subseteq> segmentPoints segments G \<or> set path \<subseteq> segmentPoints segments (- G))"

text \<open>
  A model is loaded when \<^verbatim>\<open>loadSTL\<close> or \<^verbatim>\<open>loadFromBuffers\<close> has set the three fields and the
  geometry has its position attribute.
\<close>

definition modelLoaded :: "StlSlicer \<Rightarrow> bool" where
  "modelLoaded s =
     (case geometry s of
        None \<Rightarrow> False
      | Some g \<Rightarrow> boundingBox s \<noteq> None \<and> bvhSlicer s \<noteq> None \<and> positionAttr (heap s g) \<noteq> None)"

text \<open>
  The states a slicer object goes through: the one its constructor leaves, and those after any
  sequence of loads and slicing runs. (The state a run leaves does not depend on the progress
  callback, so the run is taken without one.)
\<close>

inductive reachable :: "StlSlicer \<Rightarrow> bool" where
  constructed: "reachable newSlicer"
| loadedSTL: "reachable s \<Longrightarrow> reachable (loadSTL s r tree parsed box)"
| loadedFromBuffers:
    "reachable s \<Longrightarrow>
       reachable (loadFromBuffers s r tree positionArray indexArray boundingBoxMin boundingBoxMax)"
| sliced:
    "reachable s \<Longrightarrow>
       reachable (fst (snd (sliceModel s axis layerThickness
                              (None :: (real \<Rightarrow> unit \<Rightarrow> unit) option) ())))"

text \<open>The geometry the slicer refers to, if it has positions, has an index list.\<close>

definition indexed :: "StlSlicer \<Rightarrow> bool" where
  "indexed s =
     (case geometry s of
        None \<Rightarrow> True
      | Some g \<Rightarrow> positionAttr (heap s g) \<noteq> None \<longrightarrow> indexAttr (heap s g) \<noteq> None)"

text \<open>What \<^verbatim>\<open>createSlice\<close> needs in order not to throw.\<close>

definition sliceReady :: "StlSlicer \<Rightarrow> bool" where
  "sliceReady s = (geometry s \<noteq> None \<and> boundingBox s \<noteq> None \<and> bvhSlicer s \<noteq> None)"

text \<open>The record the loop of \<^verbatim>\<open>sliceModel\<close> pushes for index \<open>i\<close>, and the call it makes to the
  progress callback afterwards.\<close>

definition layerAt :: "StlSlicer \<Rightarrow> Axis \<Rightarrow> real \<Rightarrow> real \<Rightarrow> nat \<Rightarrow> LayerData" where
  "layerAt s axis start adjustedLayerThickness i =
     (let z = fl (start + fl (real i * adjustedLayerThickness));
          paths = projr (createSlice s z axis)
      in \<lparr>layerIndex = i, layerPaths = paths, layerZ = z, layerBounds = computePathBounds paths\<rparr>)"

definition report :: "(real \<Rightarrow> 'c \<Rightarrow> 'c) option \<Rightarrow> nat \<Rightarrow> 'c \<Rightarrow> nat \<Rightarrow> 'c" where
  "report onProgress count c i =
     (case onProgress of None \<Rightarrow> c | Some f \<Rightarrow> f ((real (i + 1) / real count) * 100) c)"

text \<open>The values the loop passes to \<^verbatim>\<open>onProgress\<close>, in order.\<close>

definition progressValues :: "nat \<Rightarrow> real list" where
  "progressValues count = map (\<lambda>i. (real (i + 1) / real count) * 100) [0..<count]"

text \<open>The length of a path as a polyline.\<close>

fun pathLength :: "Vector2 list \<Rightarrow> real" where
  "pathLength (p # q # rest) = distanceTo p q + pathLength (q # rest)"
| "pathLength path = 0"

text \<open>A progress callback that records the values it is given.\<close>

definition logProgress :: "real \<Rightarrow> real list \<Rightarrow> real list" where
  "logProgress percent seen = seen @ [percent]"

chapter \<open>Inputs of the worked examples\<close>

text \<open>
  A triangle \<open>100000\<close> wide. The plane \<open>z = 0\<close> passes through its vertex \<open>a\<close>, whose \<open>x\<close>
  coordinate is \<open>2\<^sup>-\<^sup>3\<^sup>8\<close> (about \<open>3.6 \<times> 10\<^sup>-\<^sup>1\<^sup>2\<close>), and crosses the opposite edge at
  \<open>x = 50000\<close>. All its coordinates are single-precision numbers, as an STL file holds them.
\<close>

definition wide :: Triangle where
  "wide = \<lparr>tri_a = Vector3 (1 / 2 ^ 38) 0 0, tri_b = Vector3 0 0 (-1),
           tri_c = Vector3 100000 0 1\<rparr>"

definition wideBox :: Box3 where
  "wideBox = \<lparr>bmin = Vector3 0 0 (-1), bmax = Vector3 100000 0 1\<rparr>"

definition wideGeometry :: BufferGeometry where
  "wideGeometry =
     \<lparr>positionAttr = Some [Vector3 (1 / 2 ^ 38) 0 0, Vector3 0 0 (-1), Vector3 100000 0 1],
      indexAttr = Some [0, 1, 2]\<rparr>"

text \<open>A small triangle in the same position: the plane passes through its vertex \<open>a\<close> and
  crosses the opposite edge at \<open>x = 1\<close>.\<close>

definition touching :: Triangle where
  "touching = \<lparr>tri_a = Vector3 0 0 0, tri_b = Vector3 0 0 (-1), tri_c = Vector3 2 0 1\<rparr>"

text \<open>Two pairs of collinear segments; inside a pair the gap is \<open>2\<close>, between the pairs it is
  \<open>960\<close>. The graph passes find nothing long enough, and the fallback chains each pair.\<close>

definition twoPartEdges :: "JSPoint list list" where
  "twoPartEdges =
     [[ofVector3 (Vector3 0 0 0), ofVector3 (Vector3 20 0 0)],
      [ofVector3 (Vector3 22 0 0), ofVector3 (Vector3 40 0 0)],
      [ofVector3 (Vector3 1000 0 0), ofVector3 (Vector3 1020 0 0)],
      [ofVector3 (Vector3 1022 0 0), ofVector3 (Vector3 1040 0 0)]]"

definition twoPartSegments :: "Segment list" where
  "twoPartSegments =
     [(Vector2 0 0, Vector2 20 0), (Vector2 22 0, Vector2 40 0),
      (Vector2 1000 0, Vector2 1020 0), (Vector2 1022 0, Vector2 1040 0)]"

definition twoPartNodes :: "Node list" where
  "twoPartNodes =
     [\<lparr>nposition = Vector2 0 0, connections = [1], used = False\<rparr>,
      \<lparr>nposition = Vector2 20 0, connections = [0], used = False\<rparr>,
      \<lparr>nposition = Vector2 22 0, connections = [3], used = False\<rparr>,
      \<lparr>nposition = Vector2 40 0, connections = [2], used = False\<rparr>,
      \<lparr>nposition = Vector2 1000 0, connections = [5], used = False\<rparr>,
      \<lparr>nposition = Vector2 1020 0, connections = [4], used = False\<rparr>,
      \<lparr>nposition = Vector2 1022 0, connections = [7], used = False\<rparr>,
      \<lparr>nposition = Vector2 1040 0, connections = [6], used = False\<rparr>]"

text \<open>A square of side \<open>3\<close>, as the cross-section of a thin feature: four segments that
  close up exactly.\<close>

definition loopEdges :: "JSPoint list list" where
  "loopEdges =
     [[ofVector3 (Vector3 0 0 0), ofVector3 (Vector3 3 0 0)],
      [ofVector3 (Vector3 3 0 0), ofVector3 (Vector3 3 3 0)],
      [ofVector3 (Vector3 3 3 0), ofVector3 (Vector3 0 3 0)],
      [ofVector3 (Vector3 0 3 0), ofVector3 (Vector3 0 0 0)]]"

definition loopSegments :: "Segment list" where
  "loopSegments = [(Vector2 0 0, Vector2 3 0), (Vector2 3 0, Vector2 3 3),
                   (Vector2 3 3, Vector2 0 3), (Vector2 0 3, Vector2 0 0)]"

definition loopNodes :: "Node list" where
  "loopNodes = [\<lparr>nposition = Vector2 0 0, connections = [1, 3], used = False\<rparr>,
      \<lparr>nposition = Vector2 3 0, connections = [0, 2], used = False\<rparr>,
      \<lparr>nposition = Vector2 3 3, connections = [1, 3], used = False\<rparr>,
      \<lparr>nposition = Vector2 0 3, connections = [2, 0], used = False\<rparr>]"

text \<open>An open outline of four segments whose two loose ends are \<open>1/5\<close> apart: too far to share
  a graph node only because they round to different keys, near enough to be snapped shut.\<close>

definition snapEdges :: "JSPoint list list" where
  "snapEdges =
     [[ofVector3 (Vector3 0 (2 / 5) 0), ofVector3 (Vector3 200 (2 / 5) 0)],
      [ofVector3 (Vector3 200 (2 / 5) 0), ofVector3 (Vector3 200 200 0)],
      [ofVector3 (Vector3 200 200 0), ofVector3 (Vector3 0 200 0)],
      [ofVector3 (Vector3 0 200 0), ofVector3 (Vector3 0 (3 / 5) 0)]]"

definition snapSegments :: "Segment list" where
  "snapSegments =
     [(Vector2 0 (2 / 5), Vector2 200 (2 / 5)), (Vector2 200 (2 / 5), Vector2 200 200),
      (Vector2 200 200, Vector2 0 200), (Vector2 0 200, Vector2 0 (3 / 5))]"

definition snapNodes :: "Node list" where
  "snapNodes =
     [\<lparr>nposition = Vector2 0 (2 / 5), connections = [1], used = False\<rparr>,
      \<lparr>nposition = Vector2 200 (2 / 5), connections = [0, 2], used = False\<rparr>,
      \<lparr>nposition = Vector2 200 200, connections = [1, 3], used = False\<rparr>,
      \<lparr>nposition = Vector2 0 200, connections = [2, 4], used = False\<rparr>,
      \<lparr>nposition = Vector2 0 (3 / 5), connections = [3], used = False\<rparr>]"

definition snapPath :: "Vector2 list" where
  "snapPath = [Vector2 0 (2 / 5), Vector2 200 (2 / 5), Vector2 200 200, Vector2 0 200,
               Vector2 0 (3 / 5)]"

text \<open>
  An open chain of two segments, \<open>60\<close> long, as a cut through a surface that has a boundary.
  Its two ends are far apart and no segment joins them. \<open>chainDoubled\<close> walks the chain from
  one end to the other and back.
\<close>

definition chainEdges :: "JSPoint list list" where
  "chainEdges =
     [[ofVector3 (Vector3 0 0 0), ofVector3 (Vector3 30 0 0)],
      [ofVector3 (Vector3 30 0 0), ofVector3 (Vector3 60 0 0)]]"

definition chainSegments :: "Segment list" where
  "chainSegments = [(Vector2 0 0, Vector2 30 0), (Vector2 30 0, Vector2 60 0)]"

definition chainNodes :: "Node list" where
  "chainNodes =
     [\<lparr>nposition = Vector2 0 0, connections = [1], used = False\<rparr>,
      \<lparr>nposition = Vector2 30 0, connections = [0, 2], used = False\<rparr>,
      \<lparr>nposition = Vector2 60 0, connections = [1], used = False\<rparr>]"

definition chainPath :: "Vector2 list" where
  "chainPath = [Vector2 0 0, Vector2 30 0, Vector2 60 0]"

definition chainDoubled :: "Vector2 list" where
  "chainDoubled = [Vector2 60 0, Vector2 30 0, Vector2 0 0, Vector2 30 0, Vector2 60 0]"

text \<open>
  A wall: the rectangle \<open>0 \<le> x \<le> 30\<close>, \<open>0 \<le> z \<le> 40\<close> in the plane \<open>y = 0\<close>, as two
  triangles under one leaf of the tree. Its bounding-box diagonal is \<open>50\<close>. Sliced along \<open>z\<close>
  with thickness \<open>15\<close> it gives three layers, at \<open>0\<close>, \<open>20\<close> and \<open>40\<close>.
\<close>

definition wallBox :: Box3 where
  "wallBox = \<lparr>bmin = Vector3 0 0 0, bmax = Vector3 30 0 40\<rparr>"

definition wallTriangles :: "Triangle list" where
  "wallTriangles =
     [\<lparr>tri_a = Vector3 0 0 0, tri_b = Vector3 30 0 0, tri_c = Vector3 30 0 40\<rparr>,
      \<lparr>tri_a = Vector3 0 0 0, tri_b = Vector3 30 0 40, tri_c = Vector3 0 0 40\<rparr>]"

definition wallGeometry :: BufferGeometry where
  "wallGeometry =
     \<lparr>positionAttr = Some [Vector3 0 0 0, Vector3 30 0 0, Vector3 30 0 40, Vector3 0 0 40],
      indexAttr = Some [0, 1, 2, 0, 2, 3]\<rparr>"

definition wallSlicer :: StlSlicer where
  "wallSlicer =
     loadFromBuffers newSlicer 0 (BVHLeaf wallBox wallTriangles)
       [Vector3 0 0 0, Vector3 30 0 0, Vector3 30 0 40, Vector3 0 0 40] [0, 1, 2, 0, 2, 3]
       (Vector3 0 0 0) (Vector3 30 0 40)"

definition wallLayers :: "LayerData list" where
  "wallLayers =
     [\<lparr>layerIndex = 0, layerPaths = [[Vector2 0 0, Vector2 30 0, Vector2 0 0]], layerZ = 0,
       layerBounds = \<lparr>minX = 0, maxX = 30, minY = 0, maxY = 0\<rparr>\<rparr>,
      \<lparr>layerIndex = 1, layerPaths = [[Vector2 30 0, Vector2 15 0, Vector2 0 0]], layerZ = 20,
       layerBounds = \<lparr>minX = 0, maxX = 30, minY = 0, maxY = 0\<rparr>\<rparr>,
      \<lparr>layerIndex = 2, layerPaths = [[Vector2 0 0, Vector2 30 0, Vector2 0 0]], layerZ = 40,
       layerBounds = \<lparr>minX = 0, maxX = 30, minY = 0, maxY = 0\<rparr>\<rparr>]"

text \<open>The wall loaded with a bounding box twice as high: the top layer, at \<open>80\<close>, meets no
  triangle.\<close>

definition tallSlicer :: StlSlicer where
  "tallSlicer =
     loadFromBuffers newSlicer 0 (BVHLeaf wallBox wallTriangles)
       [Vector3 0 0 0, Vector3 30 0 0, Vector3 30 0 40, Vector3 0 0 40] [0, 1, 2, 0, 2, 3]
       (Vector3 0 0 0) (Vector3 30 0 80)"

text \<open>The wall as an STL file gives it: six positions, a triangle every three, and no index
  list.\<close>

definition bareVertices :: "Vector3 list" where
  "bareVertices = [Vector3 0 0 0, Vector3 30 0 0, Vector3 30 0 40,
                   Vector3 0 0 0, Vector3 30 0 40, Vector3 0 0 40]"

definition bareGeometry :: BufferGeometry where
  "bareGeometry = \<lparr>positionAttr = Some bareVertices, indexAttr = None\<rparr>"

definition stlSlicer :: StlSlicer where
  "stlSlicer = loadSTL newSlicer 0 (BVHLeaf wallBox wallTriangles) bareGeometry wallBox"

chapter \<open>Properties\<close>

section \<open>The walks of the second pass and of the fallback end\<close>

text \<open>
  A step of the second pass moves to a node that is not yet in the visited set, and a step of the
  fallback takes a segment that is not yet used: the number of nodes, or of segments, still
  available goes down with every round.
\<close>

lemma bestNextStep_fold:
  assumes "foldl (bestNextStep ns visited) best cs = Some (i, sc)"
    and "\<And>j s. best = Some (j, s) \<Longrightarrow> j \<notin> set visited \<and> \<not> used (node ns j)"
  shows "i \<notin> set visited \<and> \<not> used (node ns i)"
  using assms
proof (induction cs arbitrary: best)
  case Nil
  then show ?case by simp
next
  case (Cons c cs)
  show ?case
  proof (rule Cons.IH)
    show "foldl (bestNextStep ns visited) (bestNextStep ns visited best c) cs = Some (i, sc)"
      using Cons.prems(1) by simp
  next
    fix j s
    assume "bestNextStep ns visited best c = Some (j, s)"
    then show "j \<notin> set visited \<and> \<not> used (node ns j)"
      using Cons.prems(2)
      by (auto simp: bestNextStep_def Let_def split: if_splits option.splits)
  qed
qed

lemma findBestNextNode_Some:
  assumes "findBestNextNode ns currentIdx visited = Some nextIdx"
  shows "nextIdx \<notin> set visited \<and> nextIdx < length ns"
proof -
  from assms obtain sc where
    "foldl (bestNextStep ns visited) None (connections (node ns currentIdx)) = Some (nextIdx, sc)"
    by (auto simp: findBestNextNode_def)
  then have "nextIdx \<notin> set visited \<and> \<not> used (node ns nextIdx)"
    by (rule bestNextStep_fold) simp
  then show ?thesis
    by (auto simp: node_def split: if_splits)
qed

termination extendWalk
proof (relation "measure (\<lambda>(forward, ns, idx, visited, path, len).
                    card ({..<length ns} - set visited))")
  show "wf (measure (\<lambda>(forward, ns, idx, visited, path, len).
                    card ({..<length ns} - set visited)))"
    by simp
next
  fix forward :: bool and ns idx visited and path :: "Vector2 list" and len :: real and nextIdx
  assume "findBestNextNode ns idx visited = Some nextIdx"
  then have n: "nextIdx \<notin> set visited" "nextIdx < length ns"
    using findBestNextNode_Some by blast+
  then have "{..<length ns} - set (setAdd visited nextIdx)
               \<subset> {..<length ns} - set visited"
    by (auto simp: setAdd_def)
  then have "card ({..<length ns} - set (setAdd visited nextIdx))
               < card ({..<length ns} - set visited)"
    by (intro psubset_card_mono) auto
  then show "((forward, ns, nextIdx, setAdd visited nextIdx,
               if forward then path @ [nposition (node ns nextIdx)]
               else nposition (node ns nextIdx) # path,
               len + distanceTo (nposition (node ns nextIdx)) (nposition (node ns idx))),
              forward, ns, idx, visited, path, len)
             \<in> measure (\<lambda>(forward, ns, idx, visited, path, len).
                    card ({..<length ns} - set visited))"
    by simp
qed

declare extendWalk.simps [simp del]

lemma closestStep_fold:
  assumes "fst (foldl (closestStep segments point) best cands) = Some (i, e)"
    and "\<And>j d. fst best = Some (j, d) \<Longrightarrow> P j d \<and> distanceTo point (segEnd (segments ! j) d) = snd best"
    and "\<And>j d. (j, d) \<in> set cands \<Longrightarrow> P j d"
    and "snd best \<le> radius"
  shows "P i e \<and> distanceTo point (segEnd (segments ! i) e) < radius
         \<or> (fst best = Some (i, e))"
  using assms
proof (induction cands arbitrary: best)
  case Nil
  then show ?case by simp
next
  case (Cons c cands)
  let ?b = "closestStep segments point best c"
  have 1: "fst (foldl (closestStep segments point) ?b cands) = Some (i, e)"
    using Cons.prems(1) by simp
  have 2: "\<And>j d. fst ?b = Some (j, d)
             \<Longrightarrow> P j d \<and> distanceTo point (segEnd (segments ! j) d) = snd ?b"
    using Cons.prems(2,3)
    by (cases c) (auto simp: closestStep_def Let_def split: if_splits)
  have 3: "\<And>j d. (j, d) \<in> set cands \<Longrightarrow> P j d"
    using Cons.prems(3) by simp
  have 4: "snd ?b \<le> radius"
    using Cons.prems(4) by (cases c) (auto simp: closestStep_def Let_def split: if_splits)
  from Cons.IH [OF 1 2 3 4]
  have "P i e \<and> distanceTo point (segEnd (segments ! i) e) < radius \<or> fst ?b = Some (i, e)"
    by blast
  then show ?case
  proof
    assume "P i e \<and> distanceTo point (segEnd (segments ! i) e) < radius"
    then show ?thesis by blast
  next
    assume b: "fst ?b = Some (i, e)"
    show ?thesis
    proof (cases "fst best = Some (i, e)")
      case True
      then show ?thesis by blast
    next
      case False
      with b have "c = (i, e)" "distanceTo point (segEnd (segments ! i) e) < snd best"
        by (cases c; auto simp: closestStep_def Let_def split: if_splits)+
      then show ?thesis
        using Cons.prems(3,4) by auto
    qed
  qed
qed

lemma findClosestSegment_Some:
  assumes "findClosestSegment radius segments point excludeSet = Some (i, e)"
  shows "i < length segments \<and> i \<notin> excludeSet \<and> e < 2
         \<and> distanceTo point (segEnd (segments ! i) e) < radius"
proof -
  have "(i < length segments \<and> i \<notin> excludeSet \<and> e < 2)
          \<and> distanceTo point (segEnd (segments ! i) e) < radius
        \<or> fst (None :: (nat \<times> nat) option, radius) = Some (i, e)"
  proof (rule closestStep_fold [where P = "\<lambda>j d. j < length segments \<and> j \<notin> excludeSet \<and> d < 2"])
    show "fst (foldl (closestStep segments point) (None, radius) (segmentEnds segments excludeSet))
            = Some (i, e)"
      using assms by (simp add: findClosestSegment_def)
  qed (auto simp: segmentEnds_def split: if_splits)
  then show ?thesis by simp
qed

termination extendChain
proof (relation "measure (\<lambda>(atTail, radius, segments, path, usedSegments).
                    card ({..<length segments} - usedSegments))")
  show "wf (measure (\<lambda>(atTail, radius, segments, path, usedSegments).
                    card ({..<length segments} - usedSegments)))"
    by simp
next
  fix atTail :: bool and radius :: real and segments :: "Segment list"
    and path :: "Vector2 list" and usedSegments :: "nat set"
    and x2 :: "nat \<times> nat" and segIdx endIdx :: nat and seg :: Segment and other :: Vector2
  assume "findClosestSegment radius segments
            (if atTail then path ! (length path - 1) else path ! 0) usedSegments = Some x2"
    and "(segIdx, endIdx) = x2"
  then have "segIdx < length segments \<and> segIdx \<notin> usedSegments"
    using findClosestSegment_Some by metis
  then have "{..<length segments} - insert segIdx usedSegments
               \<subset> {..<length segments} - usedSegments"
    by auto
  then have "card ({..<length segments} - insert segIdx usedSegments)
               < card ({..<length segments} - usedSegments)"
    by (intro psubset_card_mono) auto
  then show "((atTail, radius, segments,
               if atTail then path @ [other] else other # path,
               insert segIdx usedSegments),
              atTail, radius, segments, path, usedSegments)
             \<in> measure (\<lambda>(atTail, radius, segments, path, usedSegments).
                    card ({..<length segments} - usedSegments))"
    by simp
qed

declare extendChain.simps [simp del]

section \<open>Properties of the rounding\<close>

lemma pow2_powr: "pow2 k = 2 powr (real_of_int k)"
  by (auto simp: pow2_def powr_realpow [symmetric] powr_minus divide_simps)

lemma pow2_pos: "0 < pow2 k"
  by (simp add: pow2_powr)

lemma pow2_add: "pow2 (a + b) = pow2 a * pow2 b"
  by (simp add: pow2_powr powr_add)

lemma pow2_less_iff: "pow2 a < pow2 b \<longleftrightarrow> a < b"
  by (simp add: pow2_powr)

lemma pow2_nat: "pow2 (int n) = 2 ^ n"
  by (simp add: pow2_def)

lemma pow2_minus: "pow2 (- k) = 1 / pow2 k"
  by (simp add: pow2_powr powr_minus_divide)

lemma pow2_53: "pow2 53 = 2 ^ 53"
  by (simp add: pow2_def)

lemma pow2_neg_nat: "pow2 (- int n) = 1 / 2 ^ n"
  by (cases "n = 0") (simp_all add: pow2_def)

text \<open>\<open>exponentOf x\<close> is the exponent of the binade of \<open>x\<close>, and the only one.\<close>

lemma exponentOf_bounds:
  assumes "x \<noteq> 0"
  shows "pow2 (exponentOf x) \<le> \<bar>x\<bar> \<and> \<bar>x\<bar> < pow2 (exponentOf x + 1)"
proof (cases "1 \<le> \<bar>x\<bar>")
  case True
  define n where "n = nat \<lfloor>\<bar>x\<bar>\<rfloor>"
  have n1: "n \<ge> 1" using True by (simp add: n_def le_nat_iff)
  have k0: "0 \<le> \<lfloor>\<bar>x\<bar>\<rfloor>" by simp
  then have rn: "real n = of_int \<lfloor>\<bar>x\<bar>\<rfloor>" by (simp add: n_def)
  have nx: "real n \<le> \<bar>x\<bar>" "\<bar>x\<bar> < real n + 1"
    unfolding rn by linarith+
  from n1 have b: "2 ^ (floorlog 2 n - 1) \<le> n" "n < 2 ^ floorlog 2 n"
    using floorlog_bounds [where b = 2 and x = n] by simp_all
  have f1: "floorlog 2 n \<ge> 1" using n1 by (simp add: floorlog_def)
  have e: "exponentOf x = int (floorlog 2 n - 1)"
    using True f1 by (simp add: exponentOf_def n_def)
  have lo: "pow2 (exponentOf x) \<le> \<bar>x\<bar>"
  proof -
    have "pow2 (exponentOf x) = 2 ^ (floorlog 2 n - 1)" by (simp add: e pow2_nat)
    also have "\<dots> \<le> real n"
    proof -
      have "real (2 ^ (floorlog 2 n - 1)) \<le> real n" using b(1) by (rule of_nat_mono)
      then show ?thesis by simp
    qed
    finally show ?thesis using nx(1) by linarith
  qed
  have hi: "\<bar>x\<bar> < pow2 (exponentOf x + 1)"
  proof -
    have "exponentOf x + 1 = int (floorlog 2 n)" using f1 by (simp add: e)
    then have "pow2 (exponentOf x + 1) = 2 ^ floorlog 2 n" by (simp add: pow2_nat)
    moreover have "real n + 1 \<le> 2 ^ floorlog 2 n"
    proof -
      from b(2) have "n + 1 \<le> 2 ^ floorlog 2 n" by simp
      then have "real (n + 1) \<le> real (2 ^ floorlog 2 n)" by (rule of_nat_mono)
      then show ?thesis by simp
    qed
    ultimately show ?thesis using nx(2) by linarith
  qed
  from lo hi show ?thesis ..
next
  case False
  then have x1: "\<bar>x\<bar> < 1" by simp
  from assms have x0: "0 < \<bar>x\<bar>" by simp
  define y where "y = 1 / \<bar>x\<bar>"
  have y1: "1 < y" using x0 x1 by (simp add: y_def)
  define m where "m = nat (\<lceil>y\<rceil> - 1)"
  have c2: "\<lceil>y\<rceil> \<ge> 2" using y1 by linarith
  then have m1: "m \<ge> 1" unfolding m_def by linarith
  from c2 have "int m = \<lceil>y\<rceil> - 1" unfolding m_def by linarith
  then have rm: "real m = of_int \<lceil>y\<rceil> - 1"
    by (metis of_int_1 of_int_diff of_int_of_nat_eq)
  have my: "real m < y" "y \<le> real m + 1"
    unfolding rm by linarith+
  from m1 have b: "2 ^ (floorlog 2 m - 1) \<le> m" "m < 2 ^ floorlog 2 m"
    using floorlog_bounds [where b = 2 and x = m] by simp_all
  have f1: "floorlog 2 m \<ge> 1" using m1 by (simp add: floorlog_def)
  have e: "exponentOf x = - int (floorlog 2 m)"
    using False by (simp add: exponentOf_def m_def y_def)
  have lo: "pow2 (exponentOf x) \<le> \<bar>x\<bar>"
  proof -
    have "real m + 1 \<le> 2 ^ floorlog 2 m"
    proof -
      from b(2) have "m + 1 \<le> 2 ^ floorlog 2 m" by simp
      then have "real (m + 1) \<le> real (2 ^ floorlog 2 m)" by (rule of_nat_mono)
      then show ?thesis by simp
    qed
    with my(2) have "y \<le> 2 ^ floorlog 2 m" by linarith
    then have "1 / 2 ^ floorlog 2 m \<le> \<bar>x\<bar>"
      using x0 by (simp add: y_def field_simps)
    moreover have "pow2 (exponentOf x) = 1 / 2 ^ floorlog 2 m"
      by (simp only: e pow2_neg_nat)
    ultimately show ?thesis by simp
  qed
  have hi: "\<bar>x\<bar> < pow2 (exponentOf x + 1)"
  proof -
    have "real (2 ^ (floorlog 2 m - 1)) \<le> real m" using b(1) by (rule of_nat_mono)
    then have "(2::real) ^ (floorlog 2 m - 1) \<le> real m" by simp
    then have "2 ^ (floorlog 2 m - 1) < y" using my(1) by linarith
    then have "\<bar>x\<bar> < 1 / 2 ^ (floorlog 2 m - 1)"
      using x0 by (simp add: y_def field_simps)
    moreover have "exponentOf x + 1 = - int (floorlog 2 m - 1)" using f1 by (simp add: e)
    then have "pow2 (exponentOf x + 1) = 1 / 2 ^ (floorlog 2 m - 1)"
      by (simp only: pow2_neg_nat)
    ultimately show ?thesis by simp
  qed
  from lo hi show ?thesis ..
qed

lemma exponentOf_eqI:
  assumes "pow2 e \<le> \<bar>x\<bar>" "\<bar>x\<bar> < pow2 (e + 1)"
  shows "exponentOf x = e"
proof -
  from assms(1) have x: "x \<noteq> 0" using pow2_pos [of e] by auto
  note b = exponentOf_bounds [OF x]
  from b assms have "pow2 (exponentOf x) < pow2 (e + 1)" "pow2 e < pow2 (exponentOf x + 1)"
    by linarith+
  then have "exponentOf x < e + 1" "e < exponentOf x + 1"
    by (simp_all only: pow2_less_iff)
  then show ?thesis by simp
qed

text \<open>How \<open>fl\<close> is evaluated once the binade of its argument is known.\<close>

lemma fl_eval:
  assumes "pow2 e \<le> \<bar>x\<bar>" "\<bar>x\<bar> < pow2 (e + 1)"
  shows "fl x = of_int (roundHalfEven (x / pow2 (e - 52))) * pow2 (e - 52)"
proof -
  from assms(1) have x: "x \<noteq> 0" using pow2_pos [of e] by auto
  show ?thesis
    by (simp add: fl_def x exponentOf_eqI [OF assms] Let_def)
qed

lemma roundHalfEven_int: "roundHalfEven (of_int k) = k"
  by (simp add: roundHalfEven_def)

lemma fl_0: "fl 0 = 0"
  by (simp add: fl_def)

text \<open>A number with at most 53 significant bits is a double, and rounding leaves it as it
  is.\<close>

lemma fl_dyadic:
  assumes "\<bar>k\<bar> < 2 ^ 53"
  shows "fl (of_int k * pow2 n) = of_int k * pow2 n"
proof (cases "k = 0")
  case True
  then show ?thesis by (simp add: fl_0)
next
  case False
  define x where "x = of_int k * pow2 n"
  have x0: "x \<noteq> 0" using False pow2_pos [of n] by (simp add: x_def)
  define e where "e = exponentOf x"
  note b = exponentOf_bounds [OF x0, folded e_def]
  have "\<bar>x\<bar> = of_int \<bar>k\<bar> * pow2 n"
    using pow2_pos [of n] by (simp add: x_def abs_mult)
  also have "\<dots> < 2 ^ 53 * pow2 n"
  proof -
    from assms have "real_of_int \<bar>k\<bar> < 2 ^ 53"
      by (metis of_int_less_iff of_int_numeral of_int_power)
    then show ?thesis using pow2_pos [of n] by simp
  qed
  also have "\<dots> = pow2 (53 + n)" by (simp add: pow2_add pow2_53)
  finally have "pow2 e < pow2 (53 + n)" using b by linarith
  then have le: "e < 53 + n" by (simp only: pow2_less_iff)
  define j where "j = nat (52 + n - e)"
  have j: "int j = 52 + n - e" using le by (simp add: j_def)
  have "x / pow2 (e - 52) = of_int k * (pow2 n * pow2 (52 - e))"
    using pow2_minus [of "e - 52"] by (simp add: x_def)
  also have "pow2 n * pow2 (52 - e) = pow2 (int j)"
    by (simp add: pow2_add [symmetric] j algebra_simps)
  also have "of_int k * pow2 (int j) = of_int (k * 2 ^ j)"
    by (simp add: pow2_nat)
  finally have q: "x / pow2 (e - 52) = of_int (k * 2 ^ j)" .
  have "fl x = of_int (roundHalfEven (x / pow2 (e - 52))) * pow2 (e - 52)"
    by (simp add: fl_def x0 e_def Let_def)
  also have "\<dots> = x / pow2 (e - 52) * pow2 (e - 52)"
    unfolding q roundHalfEven_int ..
  also have "\<dots> = x" using pow2_pos [of "e - 52"] by simp
  finally show ?thesis by (simp add: x_def)
qed

lemma fl_int: "\<bar>k\<bar> < 2 ^ 53 \<Longrightarrow> fl (of_int k) = of_int k"
  using fl_dyadic [of k 0] by (simp add: pow2_def)

lemma fl_int_div: "\<bar>k\<bar> < 2 ^ 53 \<Longrightarrow> fl (of_int k / 2 ^ n) = of_int k / 2 ^ n"
  using fl_dyadic [of k "- int n"] by (simp add: pow2_neg_nat)

lemma fl_numeral:
  "numeral w < (9007199254740992::int) \<Longrightarrow> fl (numeral w) = numeral w"
  using fl_int [of "numeral w"] by simp

lemma fl_neg_numeral:
  "numeral w < (9007199254740992::int) \<Longrightarrow> fl (- numeral w) = - numeral w"
  using fl_int [of "- numeral w"] by simp

lemma fl_1: "fl 1 = 1"
  using fl_int [of 1] by simp

lemma fl_neg_1: "fl (- 1) = - 1"
  using fl_int [of "- 1"] by simp

lemmas fl_exact = fl_0 fl_1 fl_neg_1 fl_numeral fl_neg_numeral

lemmas fl_binade = pow2_def roundHalfEven_def Let_def

section \<open>Distances\<close>

text \<open>Distances between points that share a coordinate, which is all the worked examples
  need.\<close>

lemma distanceTo_same_y: "distanceTo (Vector2 a y) (Vector2 b y) = \<bar>a - b\<bar>"
  by (simp add: distanceTo_def)

lemma distanceTo_same_x: "distanceTo (Vector2 x a) (Vector2 x b) = \<bar>a - b\<bar>"
  by (simp add: distanceTo_def)

lemma distanceTo_not_neg: "(distanceTo p q < 0) = False"
  by (simp add: distanceTo_def not_less)

lemma distanceTo_self: "distanceTo p p = 0"
  by (simp add: distanceTo_def)

section \<open>Properties of the plane intersector\<close>

lemma checkEdge_Some_straddle:
  "checkEdge axis position start end = Some p \<Longrightarrow>
     (axisCoord axis start \<le> position \<and> position \<le> axisCoord axis end)
     \<or> (axisCoord axis end \<le> position \<and> position \<le> axisCoord axis start)"
  by (auto simp: checkEdge_def Let_def split: if_splits)



subsection \<open>A plane through a vertex\<close>

lemma distanceTo3_along_x: "distanceTo3 (Vector3 a y z) (Vector3 b y z) = \<bar>a - b\<bar>"
  by (simp add: distanceTo3_def)

text \<open>
  On the small triangle the branch does what its comment says: the vertex is reported twice,
  the copy is dropped, and the two points left are the triangle's segment.
\<close>

lemma touching_points:
  "intersectionPoints Z 0 touching = [Vector3 0 0 0, Vector3 1 0 0, Vector3 0 0 0]"
  by (simp add: intersectionPoints_def Let_def touching_def checkEdge_def EDGE_EPS_def
      lerpVectors_def List.map_filter_def fl_exact)

lemma touching_segment:
  "intersectsTriangle Z 0 touching = Some [Vector3 0 0 0, Vector3 1 0 0]"
  by (simp add: intersectsTriangle_def touching_points dedupPoints_def dedupStep_def
      distanceTo3_along_x EDGE_EPS_def)

text \<open>
  On the wide triangle the edge from \<open>c\<close> back to \<open>a\<close> is interpolated at \<open>t = 1\<close>:
  \<open>c + (a - c) * 1\<close>. The difference \<open>2\<^sup>-\<^sup>3\<^sup>8 - 100000\<close> is rounded to \<open>-100000\<close>, so the point
  comes out at \<open>x = 0\<close> instead of at the vertex.
\<close>

lemma wide_difference: "fl (1 / 2 ^ 38 - 100000) = - 100000"
  by (subst fl_eval [of 16]) (simp_all add: fl_binade)

lemma wide_vertex: "fl (1 / 2 ^ 38) = 1 / 2 ^ 38"
  using fl_int_div [of 1 38] by simp

lemma wide_points:
  "intersectionPoints Z 0 wide
     = [Vector3 (1 / 2 ^ 38) 0 0, Vector3 50000 0 0, Vector3 0 0 0]"
  using wide_difference wide_vertex
  by (simp add: intersectionPoints_def Let_def wide_def checkEdge_def EDGE_EPS_def
      lerpVectors_def List.map_filter_def fl_exact)

lemma wide_dedup:
  "dedupPoints [Vector3 (1 / 2 ^ 38) 0 0, Vector3 50000 0 0, Vector3 0 0 0]
     = [Vector3 (1 / 2 ^ 38) 0 0, Vector3 50000 0 0, Vector3 0 0 0]"
  by (simp add: dedupPoints_def dedupStep_def distanceTo3_along_x EDGE_EPS_def)

text \<open>
  \<^bold>\<open>C3.\<close> The claim is what the branch is written to do (its comment: ``deduplicate to 2
  unique points''), and the code misses it. The plane \<open>z = 0\<close> passes through vertex \<open>a\<close> of
  the wide triangle and all three edges report a point, but the two reports of \<open>a\<close> differ by
  \<open>2\<^sup>-\<^sup>3\<^sup>8\<close>, which is more than \<^verbatim>\<open>EDGE_EPS\<close>. The deduplication keeps three points, the test
  \<^verbatim>\<open>deduped.length === 2\<close> fails, and the triangle is discarded: the slice of a mesh made of
  this triangle has no segment.
\<close>

theorem vertex_touching_triangle_dropped:
  "intersectionPoints Z 0 wide
     = [Vector3 (1 / 2 ^ 38) 0 0, Vector3 50000 0 0, Vector3 0 0 0]
   \<and> distanceTo3 (Vector3 0 0 0) (Vector3 (1 / 2 ^ 38) 0 0) > EDGE_EPS
   \<and> length (dedupPoints (intersectionPoints Z 0 wide)) = 3
   \<and> intersectsTriangle Z 0 wide = None
   \<and> sliceAtPlane wideGeometry (BVHLeaf wideBox [wide]) 0 Z = []"
proof -
  have d: "distanceTo3 (Vector3 0 0 0) (Vector3 (1 / 2 ^ 38) 0 0) > EDGE_EPS"
    by (simp add: distanceTo3_along_x EDGE_EPS_def)
  have l: "length (dedupPoints (intersectionPoints Z 0 wide)) = 3"
    unfolding wide_points wide_dedup by simp
  then have t: "intersectsTriangle Z 0 wide = None"
    by (simp add: intersectsTriangle_def Let_def wide_points)
  have "sliceAtPlane wideGeometry (BVHLeaf wideBox [wide]) 0 Z = []"
    by (simp add: sliceAtPlane_def wideGeometry_def intersectsBounds_def wideBox_def
        List.map_filter_def t)
  with d l t wide_points show ?thesis by blast
qed

section \<open>Properties of convertTo2D\<close>

text \<open>
  \<^bold>\<open>C10.\<close> \<^verbatim>\<open>convertTo2D\<close> answers on every input: the origin when the point is missing or
  one of its coordinates is not a number, and otherwise the projection along the axis
  (\<open>(y, z)\<close> for \<open>x\<close>, \<open>(x, z)\<close> for \<open>y\<close>, \<open>(x, y)\<close> for \<open>z\<close>). An edge with such a malformed
  end therefore enters the segments with the origin as that end.
\<close>

theorem convertTo2D_total:
  "convertTo2D Missing axis = Vector2 0 0
   \<and> (x = JSNonNumber \<or> y = JSNonNumber \<or> z = JSNonNumber
        \<longrightarrow> convertTo2D (Point x y z) axis = Vector2 0 0)
   \<and> convertTo2D (Point (JSNumber a) (JSNumber b) (JSNumber c)) X = Vector2 b c
   \<and> convertTo2D (Point (JSNumber a) (JSNumber b) (JSNumber c)) Y = Vector2 a c
   \<and> convertTo2D (Point (JSNumber a) (JSNumber b) (JSNumber c)) Z = Vector2 a b
   \<and> (x = JSNonNumber \<or> y = JSNonNumber \<or> z = JSNonNumber
        \<longrightarrow> e1 \<noteq> Missing
        \<longrightarrow> toSegment axis zeroTol [Point x y z, e1]
              = (if distanceTo (Vector2 0 0) (convertTo2D e1 axis) > zeroTol
                 then Some (Vector2 0 0, convertTo2D e1 axis) else None))"
  by (cases x; cases y; cases z) (simp_all add: Let_def)

theorem convertTo2D_total_witness:
  "convertTo2D Missing Z = Vector2 0 0
   \<and> convertTo2D (Point JSNonNumber (JSNumber 1) (JSNumber 2)) Z = Vector2 0 0
   \<and> convertTo2D (Point (JSNumber 1) (JSNumber 2) (JSNumber 3)) X = Vector2 2 3
   \<and> convertTo2D (Point (JSNumber 1) (JSNumber 2) (JSNumber 3)) Y = Vector2 1 3
   \<and> convertTo2D (Point (JSNumber 1) (JSNumber 2) (JSNumber 3)) Z = Vector2 1 2
   \<and> toSegment Z (1 / 10) [Point JSNonNumber (JSNumber 1) (JSNumber 2),
                            Point (JSNumber 3) (JSNumber 0) (JSNumber 0)]
       = Some (Vector2 0 0, Vector2 3 0)"
proof -
  note t = convertTo2D_total [of Z JSNonNumber "JSNumber 1" "JSNumber 2" 1 2 3
      "Point (JSNumber 3) (JSNumber 0) (JSNumber 0)" "1 / 10"]
  have d: "distanceTo (Vector2 0 0) (convertTo2D (Point (JSNumber 3) (JSNumber 0) (JSNumber 0)) Z)
             > 1 / 10"
    by (simp add: distanceTo_same_y)
  from t d show ?thesis by simp
qed

section \<open>Properties of the graph\<close>

lemma getNodeIndex_in_range:
  assumes "graphInRange g" and "getNodeIndex tol g point = (i, g')"
  shows "i < length (nodes g') \<and> graphInRange g' \<and> length (nodes g) \<le> length (nodes g')"
proof (cases "nodeMap g (getPointKey tol point)")
  case None
  with assms(2) have g': "g' = \<lparr>nodes = nodes g @ [\<lparr>nposition = point, connections = [], used = False\<rparr>],
                      nodeMap = (nodeMap g)(getPointKey tol point \<mapsto> length (nodes g))\<rparr>"
    and i: "i = length (nodes g)"
    by (auto simp: getNodeIndex_def Let_def)
  from assms(1) have "graphInRange g'"
    unfolding graphInRange_def g' by (auto simp: less_Suc_eq)
  then show ?thesis by (simp add: g' i)
next
  case (Some j)
  with assms(2) have e: "i = j" "g' = g"
    by (auto simp: getNodeIndex_def Let_def)
  from assms(1) Some have "j < length (nodes g)"
    unfolding graphInRange_def by blast
  with assms(1) e show ?thesis by simp
qed

lemma addConnection_in_range:
  assumes "\<forall>n \<in> set ns. \<forall>c \<in> set (connections n). c < m" and "j < m"
  shows "\<forall>n \<in> set (addConnection ns i j). \<forall>c \<in> set (connections n). c < m"
proof (cases "i < length ns")
  case True
  have "\<forall>c \<in> set (connections ((ns ! i)\<lparr>connections := setAdd (connections (ns ! i)) j\<rparr>)). c < m"
    using assms True by (auto simp: setAdd_def)
  then show ?thesis
    using assms(1) True
    by (auto simp: addConnection_def dest!: set_update_subset_insert [THEN subsetD])
next
  case False
  then show ?thesis using assms(1) by (simp add: addConnection_def)
qed

lemma length_addConnection: "length (addConnection ns i j) = length ns"
  by (simp add: addConnection_def)

lemma addSegment_in_range:
  assumes "graphInRange g"
  shows "graphInRange (addSegment tol g seg)"
proof -
  obtain i1 g1 where 1: "getNodeIndex tol g (fst seg) = (i1, g1)"
    by (cases "getNodeIndex tol g (fst seg)")
  obtain i2 g2 where 2: "getNodeIndex tol g1 (snd seg) = (i2, g2)"
    by (cases "getNodeIndex tol g1 (snd seg)")
  from getNodeIndex_in_range [OF assms 1]
  have r1: "i1 < length (nodes g1)" "graphInRange g1" by simp_all
  from getNodeIndex_in_range [OF r1(2) 2]
  have r2: "i2 < length (nodes g2)" "graphInRange g2" "length (nodes g1) \<le> length (nodes g2)"
    by simp_all
  from r1(1) r2(3) have i1: "i1 < length (nodes g2)" by simp
  have c: "\<forall>n \<in> set (nodes g2). \<forall>c \<in> set (connections n). c < length (nodes g2)"
    using r2(2) by (simp add: graphInRange_def)
  have "\<forall>n \<in> set (addConnection (addConnection (nodes g2) i1 i2) i2 i1).
          \<forall>c \<in> set (connections n). c < length (nodes g2)"
    by (intro addConnection_in_range c r2(1) i1)
  then have "graphInRange (g2\<lparr>nodes := addConnection (addConnection (nodes g2) i1 i2) i2 i1\<rparr>)"
    using r2(2) by (simp add: graphInRange_def length_addConnection)
  then show ?thesis
    using r2(2) by (simp add: addSegment_def 1 2)
qed

lemma buildGraph_fold_in_range:
  "graphInRange g \<Longrightarrow> graphInRange (foldl (addSegment tol) g segments)"
  by (induction segments arbitrary: g) (simp_all add: addSegment_in_range)

lemma buildGraph_in_range: "graphInRange (buildGraph tol segments)"
  unfolding buildGraph_def
  by (rule buildGraph_fold_in_range) (simp add: graphInRange_def)

lemma angleStep_fold_mem:
  assumes "foldl (angleStep ns prev cur) best cands = Some (i, d)"
  shows "i \<in> set cands \<or> (\<exists>d'. best = Some (i, d'))"
  using assms
proof (induction cands arbitrary: best)
  case Nil
  then show ?case by simp
next
  case (Cons c cands)
  from Cons.prems have "foldl (angleStep ns prev cur) (angleStep ns prev cur best c) cands = Some (i, d)"
    by simp
  from Cons.IH [OF this]
  have "i \<in> set cands \<or> (\<exists>d'. angleStep ns prev cur best c = Some (i, d'))" .
  then show ?case
    by (auto simp: angleStep_def Let_def split: option.splits if_splits)
qed

lemma chooseBestConnection_mem:
  assumes "chooseBestConnection ns prevIdx currentIdx exclude = Some nextIdx"
  shows "nextIdx \<in> set (connections (node ns currentIdx)) \<and> nextIdx \<notin> set exclude"
proof -
  let ?cands = "filter (\<lambda>connIdx. connIdx \<notin> set exclude) (connections (node ns currentIdx))"
  consider (none) "length ?cands = 0" | (one) "length ?cands = 1"
    | (first) "length ?cands > 1" "prevIdx = None"
    | (angle) prev where "length ?cands > 1" "prevIdx = Some prev"
  proof -
    have "length ?cands = 0 \<or> length ?cands = 1 \<or> length ?cands > 1" by arith
    then show ?thesis using that by (cases prevIdx) blast+
  qed
  then have "nextIdx \<in> set ?cands"
  proof cases
    case none
    with assms show ?thesis by (auto simp: chooseBestConnection_def Let_def split: if_splits)
  next
    case one
    with assms have "nextIdx = ?cands ! 0"
      by (auto simp: chooseBestConnection_def Let_def split: if_splits)
    with one show ?thesis by (metis nth_mem zero_less_one)
  next
    case first
    with assms have "nextIdx = ?cands ! 0"
      by (auto simp: chooseBestConnection_def Let_def split: if_splits)
    with first(1) show ?thesis by (metis nth_mem less_trans zero_less_one)
  next
    case angle
    with assms obtain d where
      "foldl (angleStep ns prev currentIdx) None ?cands = Some (nextIdx, d)"
      by (auto simp: chooseBestConnection_def Let_def split: if_splits)
    from angleStep_fold_mem [OF this] show ?thesis by simp
  qed
  then show ?thesis by simp
qed

text \<open>In a graph whose connections are in range, both ways of choosing the next node return
  the index of a node.\<close>

lemma next_in_range:
  assumes "\<forall>n \<in> set ns. \<forall>c \<in> set (connections n). c < length ns"
  shows "chooseBestConnection ns prevIdx currentIdx exclude = Some nextIdx \<Longrightarrow> nextIdx < length ns"
    and "findBestNextNode ns currentIdx visited = Some nextIdx' \<Longrightarrow> nextIdx' < length ns"
proof -
  assume "chooseBestConnection ns prevIdx currentIdx exclude = Some nextIdx"
  from chooseBestConnection_mem [OF this]
  have m: "nextIdx \<in> set (connections (node ns currentIdx))" by simp
  then have "currentIdx < length ns" by (auto simp: node_def split: if_splits)
  with m assms show "nextIdx < length ns" by (auto simp: node_def)
next
  assume "findBestNextNode ns currentIdx visited = Some nextIdx'"
  then show "nextIdx' < length ns" by (simp add: findBestNextNode_Some)
qed

lemma setUsed_connections:
  "length (setUsed ns i b) = length ns"
  "j < length ns \<Longrightarrow> connections (setUsed ns i b ! j) = connections (ns ! j)"
  by (auto simp: setUsed_def nth_list_update)

section \<open>Properties of the fallback\<close>

lemma distanceTo_commute: "distanceTo p q = distanceTo q p"
  by (simp add: distanceTo_def algebra_simps)

lemma separated_compl:
  assumes "separated radius segments G"
  shows "separated radius segments (- G)"
  unfolding separated_def
proof (intro ballI)
  fix p q
  assume "p \<in> segmentPoints segments (- G)" "q \<in> segmentPoints segments (- (- G))"
  then have "q \<in> segmentPoints segments G" "p \<in> segmentPoints segments (- G)" by simp_all
  with assms have "radius \<le> distanceTo q p" by (simp add: separated_def)
  then show "radius \<le> distanceTo p q" by (simp add: distanceTo_commute)
qed

lemma segEnd_in_points:
  "i < length segments \<Longrightarrow> i \<in> S \<Longrightarrow> e < 2 \<Longrightarrow> segEnd (segments ! i) e \<in> segmentPoints segments S"
  unfolding segmentPoints_def by blast

lemma match_in_component:
  assumes sep: "separated radius segments S"
    and p: "point \<in> segmentPoints segments S"
    and m: "findClosestSegment radius segments point excl = Some (i, e)"
  shows "(if e = 0 then snd (segments ! i) else fst (segments ! i)) \<in> segmentPoints segments S"
proof -
  from findClosestSegment_Some [OF m]
  have i: "i < length segments" "e < 2"
    and d: "distanceTo point (segEnd (segments ! i) e) < radius" by simp_all
  have s: "i \<in> S"
  proof (rule ccontr)
    assume "i \<notin> S"
    then have "segEnd (segments ! i) e \<in> segmentPoints segments (- S)"
      using i by (simp add: segEnd_in_points)
    with sep p have "radius \<le> distanceTo point (segEnd (segments ! i) e)"
      by (simp add: separated_def)
    with d show False by simp
  qed
  have "(if e = 0 then snd (segments ! i) else fst (segments ! i))
          = segEnd (segments ! i) (if e = 0 then 1 else 0)"
    by (simp add: segEnd_def)
  moreover have "segEnd (segments ! i) (if e = 0 then 1 else 0) \<in> segmentPoints segments S"
    by (rule segEnd_in_points [OF i(1) s]) simp
  ultimately show ?thesis by simp
qed

lemma extendChain_stays:
  "separated radius segments S \<Longrightarrow> path \<noteq> [] \<Longrightarrow> set path \<subseteq> segmentPoints segments S \<Longrightarrow>
     fst (extendChain atTail radius segments path usedSegments) \<noteq> []
     \<and> set (fst (extendChain atTail radius segments path usedSegments))
         \<subseteq> segmentPoints segments S"
proof (induction atTail radius segments path usedSegments rule: extendChain.induct)
  case (1 atTail radius segments path usedSegments)
  let ?point = "if atTail then path ! (length path - 1) else path ! 0"
  show ?case
  proof (cases "findClosestSegment radius segments ?point usedSegments")
    case None
    then show ?thesis using "1.prems" by (subst (1 2) extendChain.simps) simp
  next
    case (Some m)
    obtain i e where m: "m = (i, e)" by (cases m)
    let ?other = "if e = 0 then snd (segments ! i) else fst (segments ! i)"
    let ?path' = "if atTail then path @ [?other] else ?other # path"
    have "?point \<in> set path"
      using "1.prems"(2) by simp
    then have pt: "?point \<in> segmentPoints segments S" using "1.prems"(3) by blast
    have f: "findClosestSegment radius segments ?point usedSegments = Some (i, e)"
      using Some m by simp
    have o: "?other \<in> segmentPoints segments S"
      by (rule match_in_component [OF "1.prems"(1) pt f])
    have ih: "fst (extendChain atTail radius segments ?path' (insert i usedSegments)) \<noteq> []
       \<and> set (fst (extendChain atTail radius segments ?path' (insert i usedSegments)))
           \<subseteq> segmentPoints segments S"
    proof (rule "1.IH" [OF Some m [symmetric] refl refl "1.prems"(1)])
      show "?path' \<noteq> []" by simp
      show "set ?path' \<subseteq> segmentPoints segments S"
        using o "1.prems"(3) by auto
    qed
    have "extendChain atTail radius segments path usedSegments
            = extendChain atTail radius segments ?path' (insert i usedSegments)"
      by (subst extendChain.simps) (simp add: f Let_def)
    then show ?thesis using ih by simp
  qed
qed

lemma chain_from_segment:
  assumes sep: "separated radius segments S" and i: "i < length segments" "i \<in> S"
  shows "set (fst (extendChain False radius segments
                 (fst (extendChain True radius segments
                         [fst (segments ! i), snd (segments ! i)] used0))
                 used1))
         \<subseteq> segmentPoints segments S"
proof -
  let ?path0 = "[fst (segments ! i), snd (segments ! i)]"
  have "fst (segments ! i) = segEnd (segments ! i) 0" "snd (segments ! i) = segEnd (segments ! i) 1"
    by (simp_all add: segEnd_def)
  then have "set ?path0 \<subseteq> segmentPoints segments S"
    using segEnd_in_points [OF i, of 0] segEnd_in_points [OF i, of 1] by simp
  then have 1: "fst (extendChain True radius segments ?path0 used0) \<noteq> []
     \<and> set (fst (extendChain True radius segments ?path0 used0)) \<subseteq> segmentPoints segments S"
    by (intro extendChain_stays [OF sep]) simp_all
  show ?thesis
    using extendChain_stays [OF sep conjunct1 [OF 1] conjunct2 [OF 1]] by blast
qed

lemma fallbackStep_components:
  assumes sep: "separated radius segments G" and i: "i < length segments"
    and inv: "\<forall>p \<in> set (snd st). oneComponent segments G p"
  shows "\<forall>p \<in> set (snd (fallbackStep radius segments st i)). oneComponent segments G p"
proof -
  obtain usedSegments paths where st: "st = (usedSegments, paths)" by (cases st)
  obtain path1 used1 where c1: "extendChain True radius segments
      [fst (segments ! i), snd (segments ! i)] (insert i usedSegments) = (path1, used1)"
    by (cases "extendChain True radius segments
      [fst (segments ! i), snd (segments ! i)] (insert i usedSegments)")
  obtain path2 used2 where c2: "extendChain False radius segments path1 used1 = (path2, used2)"
    by (cases "extendChain False radius segments path1 used1")
  have "oneComponent segments G path2"
  proof (cases "i \<in> G")
    case True
    from chain_from_segment [OF sep i True, of "insert i usedSegments" used1]
    show ?thesis by (simp add: c1 c2 oneComponent_def)
  next
    case False
    then have "i \<in> - G" by simp
    from chain_from_segment [OF separated_compl [OF sep] i this, of "insert i usedSegments" used1]
    show ?thesis by (simp add: c1 c2 oneComponent_def)
  qed
  then show ?thesis
    using inv by (auto simp: fallbackStep_def st c1 c2 Let_def)
qed

lemma fallback_fold_components:
  assumes sep: "separated radius segments G"
  shows "set todo \<subseteq> {..<length segments} \<Longrightarrow> \<forall>p \<in> set (snd st). oneComponent segments G p \<Longrightarrow>
         \<forall>p \<in> set (snd (foldl (fallbackStep radius segments) st todo)).
            oneComponent segments G p"
proof (induction todo arbitrary: st)
  case Nil
  then show ?case by simp
next
  case (Cons i todo)
  have "\<forall>p \<in> set (snd (fallbackStep radius segments st i)). oneComponent segments G p"
    by (rule fallbackStep_components [OF sep]) (use Cons.prems in auto)
  then show ?case
    using Cons.IH [of "fallbackStep radius segments st i"] Cons.prems(1) by simp
qed

lemma fallbackPaths_components:
  assumes "separated radius segments G"
  shows "\<forall>p \<in> set (fallbackPaths radius segments). oneComponent segments G p"
  unfolding fallbackPaths_def
  by (rule fallback_fold_components [OF assms]) auto

lemma set_finalCleanup: "set (finalCleanup tol path) = set path"
proof -
  have "length path \<ge> 3 \<Longrightarrow> path ! 0 \<in> set path" by (cases path) simp_all
  then show ?thesis by (auto simp: finalCleanup_def Let_def)
qed

lemma buildPaths_fallback:
  assumes "toSegments axis (ZERO_LENGTH_TOL diagonal) edges = segments"
    and "graphPaths diagonal segments = []"
  shows "buildPaths edges axis diagonal
           = map (finalCleanup (TOLERANCE diagonal)) (fallbackPaths (FALLBACK_RADIUS diagonal) segments)"
proof (cases "segments = []")
  case True
  then show ?thesis using assms
    by (simp add: buildPaths_def fallbackPaths_def)
next
  case False
  then have "edges \<noteq> []" using assms(1) by (auto simp: toSegments_def List.map_filter_def)
  then show ?thesis using assms False
    by (simp add: buildPaths_def producedPaths_def)
qed

text \<open>
  \<^bold>\<open>C5.\<close> In the fallback (entered only when the graph passes produce no path) a segment is
  chained to the head or tail of the current path only when one of its ends, the segment being
  unused, lies strictly within the fallback radius of that point. Hence, when a group of
  segments has all its end points at least the radius away from those of the other segments,
  every path returned takes its points from the group alone or from the other segments alone:
  the two are never merged.
\<close>

theorem fallback_keeps_components_apart:
  assumes "toSegments axis (ZERO_LENGTH_TOL diagonal) edges = segments"
    and "graphPaths diagonal segments = []"
    and "separated (FALLBACK_RADIUS diagonal) segments G"
  shows "(\<forall>point excl i e.
            findClosestSegment (FALLBACK_RADIUS diagonal) segments point excl = Some (i, e) \<longrightarrow>
              i < length segments \<and> i \<notin> excl
              \<and> distanceTo point (segEnd (segments ! i) e) < FALLBACK_RADIUS diagonal)
         \<and> (\<forall>path \<in> set (buildPaths edges axis diagonal).
               set path \<subseteq> segmentPoints segments G \<or> set path \<subseteq> segmentPoints segments (- G))"
proof -
  have "\<forall>path \<in> set (buildPaths edges axis diagonal). oneComponent segments G path"
    using fallbackPaths_components [OF assms(3)]
    by (auto simp: buildPaths_fallback [OF assms(1,2)] oneComponent_def set_finalCleanup)
  then show ?thesis
    using findClosestSegment_Some by (auto simp: oneComponent_def)
qed

section \<open>Properties of the final cleanup\<close>

lemma TOLERANCE_pos: "0 < TOLERANCE diagonal"
  by (simp add: TOLERANCE_def safeDiag_def max_def)

lemma buildPaths_cleanup:
  "buildPaths edges axis diagonal =
     (if toSegments axis (ZERO_LENGTH_TOL diagonal) edges = [] then []
      else map (finalCleanup (TOLERANCE diagonal))
             (producedPaths diagonal (toSegments axis (ZERO_LENGTH_TOL diagonal) edges)))"
  by (auto simp: buildPaths_def Let_def toSegments_def List.map_filter_def)

text \<open>
  The final pass appends a copy of the first point to a path of at least 3 points whose ends
  are at a distance \<open>gap\<close> with \<open>0 < gap \<le> TOLERANCE\<close>, and returns a path whose ends are
  farther apart as it is.
\<close>

lemma finalCleanup_snaps:
  "length path \<ge> 3 \<Longrightarrow> 0 < distanceTo (path ! 0) (path ! (length path - 1)) \<Longrightarrow>
   distanceTo (path ! 0) (path ! (length path - 1)) \<le> tol \<Longrightarrow>
     finalCleanup tol path = path @ [path ! 0]"
  by (simp add: finalCleanup_def Let_def)

lemma finalCleanup_leaves_open:
  "distanceTo (path ! 0) (path ! (length path - 1)) > tol \<Longrightarrow>
     finalCleanup tol path = path"
  by (simp add: finalCleanup_def Let_def)

section \<open>The second pass walks every path twice\<close>

text \<open>
  The forward and the backward walk of the second pass start at the same node, each with a
  visited set of its own that holds only that node, and no node is marked used before both
  have ended. They therefore make the same choices: a walk depends on its direction only in
  where it puts the points. Its visited set, the points it adds (\<open>xs\<close>) and the length it adds
  are those of the forward walk from an empty path.
\<close>

lemma extendWalk_canonical:
  fixes f0 :: bool and p0 :: "Vector2 list" and l0 :: real
  shows "\<forall>forward path len.
           extendWalk forward ns idx visited path len
             = (fst (extendWalk True ns idx visited [] 0),
                (if forward then path @ fst (snd (extendWalk True ns idx visited [] 0))
                 else rev (fst (snd (extendWalk True ns idx visited [] 0))) @ path),
                len + snd (snd (extendWalk True ns idx visited [] 0)))"
proof (induction f0 ns idx visited p0 l0 rule: extendWalk.induct)
  case (1 f ns idx visited p l)
  show ?case
  proof (cases "findBestNextNode ns idx visited")
    case None
    then show ?thesis by (simp add: extendWalk.simps)
  next
    case (Some nextIdx)
    note ih = "1.IH" [OF Some, rule_format]
    let ?W = "extendWalk True ns nextIdx (setAdd visited nextIdx) [] 0"
    let ?pos = "nposition (node ns nextIdx)"
    let ?d = "distanceTo ?pos (nposition (node ns idx))"
    have w: "extendWalk True ns idx visited [] 0
               = (fst ?W, ?pos # fst (snd ?W), ?d + snd (snd ?W))"
      by (subst extendWalk.simps) (simp add: Some ih [of True "[?pos]"])
    show ?thesis
    proof (intro allI)
      fix forward path len
      have "extendWalk forward ns idx visited path len
              = (fst ?W,
                 (if forward then path @ ?pos # fst (snd ?W)
                  else rev (fst (snd ?W)) @ ?pos # path),
                 len + (?d + snd (snd ?W)))"
        by (subst extendWalk.simps)
           (simp add: Some ih [of forward "if forward then path @ [?pos] else ?pos # path"])
      then show "extendWalk forward ns idx visited path len
             = (fst (extendWalk True ns idx visited [] 0),
                (if forward then path @ fst (snd (extendWalk True ns idx visited [] 0))
                 else rev (fst (snd (extendWalk True ns idx visited [] 0))) @ path),
                len + snd (snd (extendWalk True ns idx visited [] 0)))"
        unfolding w by simp
    qed
  qed
qed

text \<open>
  So the path the second pass puts together is the forward walk preceded by its own mirror
  image. It begins and ends at the same point, the test ``already closed'' always succeeds, and
  the branch that would record an open path is never reached.
\<close>

lemma remainingStep_shape:
  "remainingStep diagonal nmap (ns, paths) i = (ns', paths') \<Longrightarrow>
     paths' = paths
     \<or> (\<exists>xs. xs \<noteq> [] \<and> paths' = paths @ [rev xs @ nposition (node ns i) # xs])"
proof -
  assume a: "remainingStep diagonal nmap (ns, paths) i = (ns', paths')"
  let ?W = "extendWalk True ns i [i] [] 0"
  let ?xs = "fst (snd ?W)"
  let ?full = "rev ?xs @ nposition (node ns i) # ?xs"
  note c = extendWalk_canonical [of ns i "[i]", rule_format]
  have f: "extendWalk True ns i [i] [nposition (node ns i)] 0
             = (fst ?W, nposition (node ns i) # ?xs, snd (snd ?W))"
    using c [of True "[nposition (node ns i)]" 0] by simp
  have b: "extendWalk False ns i [i] [] l = (fst ?W, rev ?xs, l + snd (snd ?W))" for l
    using c [of False "[]" l] by simp
  show ?thesis
  proof (cases "paths' = paths")
    case True
    then show ?thesis by simp
  next
    case False
    with a have len: "3 \<le> length ?full"
      by (auto simp: remainingStep_def f b Let_def split: if_splits)
    then have ne: "?xs \<noteq> []" by auto
    then have e: "?full ! 0 = last ?xs" "?full ! (length ?full - 1) = last ?xs"
      by (simp_all add: nth_append rev_nth last_conv_nth)
    have cl: "closeIfConnected (TOLERANCE diagonal) n m ?full = ?full" for n m
      by (simp only: closeIfConnected_def Let_def e distanceTo_self TOLERANCE_pos if_True)
    from a False have "paths' = paths @ [?full]"
      by (auto simp: remainingStep_def f b Let_def cl split: if_splits)
    with ne show ?thesis by blast
  qed
qed

lemma remaining_fold_shape:
  "foldl (remainingStep diagonal nmap) (ns, paths) todo = (ns', paths') \<Longrightarrow>
     \<exists>new. paths' = paths @ new \<and> (\<forall>p \<in> set new. p \<noteq> [] \<and> hd p = last p)"
proof (induction todo arbitrary: ns paths)
  case Nil
  then show ?case by simp
next
  case (Cons i todo)
  obtain ns1 paths1 where s: "remainingStep diagonal nmap (ns, paths) i = (ns1, paths1)"
    by (cases "remainingStep diagonal nmap (ns, paths) i")
  from Cons.prems have "foldl (remainingStep diagonal nmap) (ns1, paths1) todo = (ns', paths')"
    by (simp add: s)
  from Cons.IH [OF this] obtain new where
    n: "paths' = paths1 @ new" "\<forall>p \<in> set new. p \<noteq> [] \<and> hd p = last p" by blast
  from remainingStep_shape [OF s] consider "paths1 = paths"
    | xs where "xs \<noteq> []" "paths1 = paths @ [rev xs @ nposition (node ns i) # xs]" by blast
  then show ?case
  proof cases
    case 1
    with n show ?thesis by blast
  next
    case 2
    let ?p = "rev xs @ nposition (node ns i) # xs"
    have "?p \<noteq> [] \<and> hd ?p = last ?p" using 2(1) by (simp add: hd_rev)
    with n 2 have "paths' = paths @ (?p # new) \<and> (\<forall>p \<in> set (?p # new). p \<noteq> [] \<and> hd p = last p)"
      by simp
    then show ?thesis by blast
  qed
qed

lemma second_pass_never_open:
  "handleRemainingSegments diagonal nmap (ns, paths) = (ns', paths') \<Longrightarrow>
     \<exists>new. paths' = paths @ new \<and> (\<forall>p \<in> set new. p \<noteq> [] \<and> hd p = last p)"
  unfolding handleRemainingSegments_def
  by (auto simp: Let_def dest: remaining_fold_shape split: if_splits)

section \<open>Every returned path has at least three points\<close>

text \<open>Each of the three passes records a path only behind a test of its point count, the
  closures only add a point, and so does the final cleanup.\<close>

lemma contourStep_points:
  assumes "\<forall>p \<in> set (snd st). 3 \<le> length p"
  shows "\<forall>p \<in> set (snd (contourStep diagonal nsegs st startIdx)). 3 \<le> length p"
  using assms
  by (cases st) (auto simp: contourStep_def Let_def split: prod.splits if_splits)

lemma findContours_fold_points:
  "\<forall>p \<in> set (snd st). 3 \<le> length p \<Longrightarrow>
   \<forall>p \<in> set (snd (foldl (contourStep diagonal nsegs) st order)). 3 \<le> length p"
proof (induction order arbitrary: st)
  case Nil
  then show ?case by simp
next
  case (Cons i order)
  from contourStep_points [OF Cons.prems]
  have "\<forall>p \<in> set (snd (contourStep diagonal nsegs st i)). 3 \<le> length p" .
  from Cons.IH [OF this] show ?case by simp
qed

lemma length_closeIfConnected:
  "length fullPath \<le> length (closeIfConnected tol ns nmap fullPath)"
  by (simp add: closeIfConnected_def Let_def split: option.splits)

lemma remainingStep_points:
  assumes "\<forall>p \<in> set (snd st). 3 \<le> length p"
  shows "\<forall>p \<in> set (snd (remainingStep diagonal nmap st i)). 3 \<le> length p"
proof (cases st)
  case (Pair ns paths)
  have "3 \<le> length fullPath \<Longrightarrow> 3 \<le> length (closeIfConnected tol ns' nmap fullPath)"
    for fullPath tol ns'
    using length_closeIfConnected [of fullPath tol ns' nmap] by simp
  with assms Pair show ?thesis
    by (auto simp: remainingStep_def Let_def split: prod.splits if_splits)
qed

lemma remaining_fold_points:
  "\<forall>p \<in> set (snd st). 3 \<le> length p \<Longrightarrow>
   \<forall>p \<in> set (snd (foldl (remainingStep diagonal nmap) st todo)). 3 \<le> length p"
proof (induction todo arbitrary: st)
  case Nil
  then show ?case by simp
next
  case (Cons i todo)
  from remainingStep_points [OF Cons.prems]
  have "\<forall>p \<in> set (snd (remainingStep diagonal nmap st i)). 3 \<le> length p" .
  from Cons.IH [OF this] show ?case by simp
qed

lemma handleRemainingSegments_points:
  assumes "\<forall>p \<in> set (snd st). 3 \<le> length p"
  shows "\<forall>p \<in> set (snd (handleRemainingSegments diagonal nmap st)). 3 \<le> length p"
proof (cases st)
  case (Pair ns paths)
  with assms remaining_fold_points [of "(ns, paths)" diagonal nmap "[0..<length ns]"]
  show ?thesis
    by (simp add: handleRemainingSegments_def Let_def)
qed

lemma graphPaths_points: "\<forall>p \<in> set (graphPaths diagonal segments). 3 \<le> length p"
  unfolding graphPaths_def Let_def findContours_def
  by (intro handleRemainingSegments_points findContours_fold_points) simp

lemma fallbackStep_points:
  assumes "\<forall>p \<in> set (snd st). 3 \<le> length p"
  shows "\<forall>p \<in> set (snd (fallbackStep radius segments st i)). 3 \<le> length p"
  using assms
  by (cases st) (auto simp: fallbackStep_def Let_def split: prod.splits if_splits)

lemma fallback_fold_points:
  "\<forall>p \<in> set (snd st). 3 \<le> length p \<Longrightarrow>
   \<forall>p \<in> set (snd (foldl (fallbackStep radius segments) st todo)). 3 \<le> length p"
proof (induction todo arbitrary: st)
  case Nil
  then show ?case by simp
next
  case (Cons i todo)
  from fallbackStep_points [OF Cons.prems]
  have "\<forall>p \<in> set (snd (fallbackStep radius segments st i)). 3 \<le> length p" .
  from Cons.IH [OF this] show ?case by simp
qed

lemma fallbackPaths_points: "\<forall>p \<in> set (fallbackPaths radius segments). 3 \<le> length p"
  unfolding fallbackPaths_def by (rule fallback_fold_points) simp

lemma length_finalCleanup: "length path \<le> length (finalCleanup tol path)"
  by (simp add: finalCleanup_def Let_def)

lemma buildPaths_points:
  "\<forall>path \<in> set (buildPaths edges axis diagonal). 3 \<le> length path"
proof -
  have "\<forall>p \<in> set (producedPaths diagonal segments). 3 \<le> length p" for segments
    using graphPaths_points fallbackPaths_points by (simp add: producedPaths_def Let_def)
  moreover have "3 \<le> length p \<Longrightarrow> 3 \<le> length (finalCleanup tol p)" for p tol
    using length_finalCleanup [of p tol] by simp
  ultimately show ?thesis
    by (auto simp: buildPaths_cleanup)
qed

section \<open>Properties of computePathBounds\<close>

lemma Min_insert_min:
  fixes a b :: real
  assumes "finite S"
  shows "Min (insert (if a < b then a else b) S) = Min (insert b (insert a S))"
proof (cases "S = {}")
  case True
  then show ?thesis by (auto simp: min_def)
next
  case False
  with assms show ?thesis by (auto simp: min_def)
qed

lemma Max_insert_max:
  fixes a b :: real
  assumes "finite S"
  shows "Max (insert (if a > b then a else b) S) = Max (insert b (insert a S))"
proof (cases "S = {}")
  case True
  then show ?thesis by (auto simp: max_def)
next
  case False
  with assms show ?thesis by (auto simp: max_def)
qed

lemma foldl_scanPoint_Some:
  "foldl scanPoint (Some b) pts =
     Some \<lparr>minX = Min (insert (minX b) (vx ` set pts)), maxX = Max (insert (maxX b) (vx ` set pts)),
           minY = Min (insert (minY b) (vy ` set pts)), maxY = Max (insert (maxY b) (vy ` set pts))\<rparr>"
proof (induction pts arbitrary: b)
  case Nil
  show ?case by simp
next
  case (Cons p ps)
  show ?case
    by (simp add: Cons.IH Min_insert_min Max_insert_max del: Min_insert Max_insert)
qed

lemma foldl_scanPoint_concat:
  "foldl (foldl scanPoint) acc paths = foldl scanPoint acc (concat paths)"
  by (induction paths arbitrary: acc) simp_all

lemma computePathBounds_points:
  "computePathBounds paths =
     (if concat paths = [] then \<lparr>minX = 0, maxX = 0, minY = 0, maxY = 0\<rparr>
      else \<lparr>minX = Min (vx ` set (concat paths)), maxX = Max (vx ` set (concat paths)),
            minY = Min (vy ` set (concat paths)), maxY = Max (vy ` set (concat paths))\<rparr>)"
proof (cases "concat paths")
  case Nil
  show ?thesis
    unfolding computePathBounds_def foldl_scanPoint_concat Nil by simp
next
  case (Cons p ps)
  show ?thesis
    unfolding computePathBounds_def foldl_scanPoint_concat Cons
    by (simp add: foldl_scanPoint_Some del: Min_insert Max_insert)
qed

section \<open>Properties of sliceModel\<close>

lemma createSlice_ready:
  "sliceReady s \<Longrightarrow> \<exists>paths. createSlice s pos axis = Inr paths"
  by (auto simp: sliceReady_def createSlice_def Let_def)

lemma sliceLayers_ready:
  assumes "sliceReady s"
  shows "sliceLayers s axis start adj count onProgress todo layers c =
           (Inr (layers @ map (layerAt s axis start adj) todo),
            foldl (report onProgress count) c todo)"
proof (induction todo arbitrary: layers c)
  case Nil
  show ?case by simp
next
  case (Cons i rest)
  obtain paths where p: "createSlice s (fl (start + fl (real i * adj))) axis = Inr paths"
    using createSlice_ready [OF assms] by blast
  show ?case
    by (simp add: p Cons.IH layerAt_def report_def Let_def)
qed

lemma sliceModel_loaded:
  fixes s :: StlSlicer and axis :: Axis and layerThickness :: real and box :: Box3
    and pos :: "Vector3 list" and g :: ref
  assumes "geometry s = Some g" "boundingBox s = Some box" "bvhSlicer s = Some b"
    "positionAttr (heap s g) = Some pos" "layerThickness \<noteq> 0"
  defines "s1 \<equiv> (if indexAttr (heap s g) = None
                   then s\<lparr>heap := (heap s)(g := (heap s g)\<lparr>indexAttr := Some [0..<length pos]\<rparr>)\<rparr>
                   else s)"
  defines "start \<equiv> axisCoord axis (bmin box)"
  defines "height \<equiv> fl (axisCoord axis (bmax box) - axisCoord axis (bmin box))"
  defines "n \<equiv> max 2 \<lceil>fl (height / layerThickness)\<rceil>"
  defines "adj \<equiv> fl (height / real_of_int (n - 1))"
  shows "sliceModel s axis layerThickness onProgress c =
           (Inr (map (layerAt s1 axis start adj) [0..<nat n]), s1,
            foldl (report onProgress (nat n)) c [0..<nat n])"
proof -
  have r: "sliceReady s1"
    using assms(1-3) by (simp add: sliceReady_def s1_def)
  have i: "indexAttr (heap s1 g) \<noteq> None"
    by (simp add: s1_def)
  show ?thesis
    using assms(1-5) i
    unfolding sliceModel_def
    by (simp add: Let_def calculatedLayerCount_def sliceLayers_ready [OF r]
        s1_def [symmetric] start_def adj_def n_def height_def)
qed

lemma modelLoadedE:
  assumes "modelLoaded s"
  obtains g box b pos where "geometry s = Some g" "boundingBox s = Some box"
    "bvhSlicer s = Some b" "positionAttr (heap s g) = Some pos"
  using assms by (auto simp: modelLoaded_def split: option.splits)

text \<open>
  What a run on a loaded model returns: \<open>max(2, ceil(totalHeight / layerThickness))\<close> layers,
  layer \<open>i\<close> with index \<open>i\<close> at the position the loop computes for it from the adjusted
  thickness, every operation rounded.
\<close>

lemma sliceModel_positions:
  fixes s :: StlSlicer and axis :: Axis and layerThickness :: real and box :: Box3
  assumes "modelLoaded s" and "boundingBox s = Some box" and "layerThickness > 0"
  defines "start \<equiv> axisCoord axis (bmin box)"
  defines "totalHeight \<equiv> fl (axisCoord axis (bmax box) - axisCoord axis (bmin box))"
  defines "layerCount \<equiv> max 2 \<lceil>fl (totalHeight / layerThickness)\<rceil>"
  defines "adjustedThickness \<equiv> fl (totalHeight / real_of_int (layerCount - 1))"
  shows "\<exists>layers s' c'.
           sliceModel s axis layerThickness onProgress c = (Inr layers, s', c')
           \<and> int (length layers) = layerCount
           \<and> (\<forall>i < length layers.
                 layerIndex (layers ! i) = i
                 \<and> layerZ (layers ! i) = fl (start + fl (real i * adjustedThickness)))"
proof -
  from assms(1) obtain g box' b pos where l: "geometry s = Some g" "boundingBox s = Some box'"
    "bvhSlicer s = Some b" "positionAttr (heap s g) = Some pos"
    by (rule modelLoadedE)
  have t: "layerThickness \<noteq> 0" using assms(3) by simp
  have n2: "layerCount \<ge> 2" by (simp add: layerCount_def)
  note m = sliceModel_loaded [OF l(1) assms(2) l(3) l(4) t, of axis onProgress c,
      folded start_def totalHeight_def, folded layerCount_def, folded adjustedThickness_def]
  show ?thesis
    using n2 by (simp add: m layerAt_def Let_def)
qed

lemma createSlice_not_ready:
  "\<not> sliceReady s \<Longrightarrow> \<exists>e. createSlice s pos axis = Inl e"
  by (auto simp: sliceReady_def createSlice_def Let_def split: option.splits)

lemma sliceLayers_Inr_ready:
  assumes "sliceLayers s axis start adj count onProgress todo layers c = (Inr ls, c')"
    and "todo \<noteq> []"
  shows "sliceReady s"
proof (rule ccontr)
  assume n: "\<not> sliceReady s"
  from assms(2) obtain i rest where t: "todo = i # rest" by (cases todo) auto
  from createSlice_not_ready [OF n] obtain e where
    "createSlice s (fl (start + fl (real i * adj))) axis = Inl e" by blast
  with assms(1) show False by (simp add: t)
qed

lemma sliceModel_Inr:
  assumes "sliceModel s axis layerThickness onProgress c = (Inr layers, s', c')"
  shows "layers = []
         \<or> (sliceReady s'
             \<and> (\<exists>start adj. layers = map (layerAt s' axis start adj) [0..<length layers]))"
proof -
  from assms obtain g box pos where l: "geometry s = Some g" "boundingBox s = Some box"
    "positionAttr (heap s g) = Some pos"
    by (auto simp: sliceModel_def split: option.splits)
  define s1 where "s1 = (if indexAttr (heap s g) = None
                   then s\<lparr>heap := (heap s)(g := (heap s g)\<lparr>indexAttr := Some [0..<length pos]\<rparr>)\<rparr>
                   else s)"
  define start where "start = axisCoord axis (bmin box)"
  define total where "total = fl (axisCoord axis (bmax box) - start)"
  have i: "indexAttr (heap s1 g) \<noteq> None" by (simp add: s1_def)
  show ?thesis
  proof (cases "calculatedLayerCount total layerThickness")
    case NaN
    with assms l i show ?thesis
      by (simp add: sliceModel_def Let_def s1_def [symmetric] start_def [symmetric]
          total_def [symmetric])
  next
    case PosInfinity
    with assms l i show ?thesis
      by (simp add: sliceModel_def Let_def s1_def [symmetric] start_def [symmetric]
          total_def [symmetric] split: sum.splits)
  next
    case (Finite n)
    define adj where "adj = fl (total / real_of_int (n - 1))"
    from assms l i Finite
    have r: "sliceLayers s1 axis start adj (nat n) onProgress [0..<nat n] [] c = (Inr layers, c')"
      and s': "s' = s1"
      by (auto simp: sliceModel_def Let_def s1_def [symmetric] start_def [symmetric]
          total_def [symmetric] adj_def split: prod.splits)
    show ?thesis
    proof (cases "nat n = 0")
      case True
      with r show ?thesis by simp
    next
      case False
      then have "[0..<nat n] \<noteq> []" by simp
      from sliceLayers_Inr_ready [OF r this] have rd: "sliceReady s1" .
      from r have "layers = map (layerAt s1 axis start adj) [0..<nat n]"
        by (simp add: sliceLayers_ready [OF rd])
      then have "layers = map (layerAt s1 axis start adj) [0..<length layers]" by simp
      then show ?thesis using rd s' by blast
    qed
  qed
qed

lemma computePathBounds_empty:
  "concat paths = [] \<Longrightarrow> computePathBounds paths = \<lparr>minX = 0, maxX = 0, minY = 0, maxY = 0\<rparr>"
  by (simp only: computePathBounds_points refl if_True)

lemma computePathBounds_nonempty:
  "concat paths \<noteq> [] \<Longrightarrow>
     computePathBounds paths =
       \<lparr>minX = Min (vx ` set (concat paths)), maxX = Max (vx ` set (concat paths)),
        minY = Min (vy ` set (concat paths)), maxY = Max (vy ` set (concat paths))\<rparr>"
  by (simp only: computePathBounds_points if_False)

text \<open>
  \<^bold>\<open>C6.\<close> A run on a loaded model with a positive thickness returns layers (it does not
  throw). In every layer a run returns, the bounds are \<^verbatim>\<open>computePathBounds\<close> of the layer's
  paths: the minimum and maximum of each coordinate over all points of all paths, or all zero
  when there is no point. When the plane of a layer meets no triangle, the layer has no paths
  and zero bounds.
\<close>

theorem layer_bounds:
  "(modelLoaded s \<and> layerThickness > 0 \<longrightarrow>
      (\<exists>layers s' c'. sliceModel s axis layerThickness onProgress c = (Inr layers, s', c')))
   \<and> (\<forall>layers s' c'. sliceModel s axis layerThickness onProgress c = (Inr layers, s', c') \<longrightarrow>
        (\<forall>l \<in> set layers.
           layerBounds l = computePathBounds (layerPaths l)
           \<and> (concat (layerPaths l) = [] \<longrightarrow>
                layerBounds l = \<lparr>minX = 0, maxX = 0, minY = 0, maxY = 0\<rparr>)
           \<and> (concat (layerPaths l) \<noteq> [] \<longrightarrow>
                minX (layerBounds l) = Min (vx ` set (concat (layerPaths l)))
                \<and> maxX (layerBounds l) = Max (vx ` set (concat (layerPaths l)))
                \<and> minY (layerBounds l) = Min (vy ` set (concat (layerPaths l)))
                \<and> maxY (layerBounds l) = Max (vy ` set (concat (layerPaths l))))
           \<and> (\<forall>b. bvhSlicer s' = Some b
                  \<and> sliceAtPlane (heap s' (bvhGeometry b)) (bvh b) (layerZ l) axis = []
                \<longrightarrow> layerPaths l = []
                    \<and> layerBounds l = \<lparr>minX = 0, maxX = 0, minY = 0, maxY = 0\<rparr>)))"
proof (intro conjI allI impI ballI)
  assume "modelLoaded s \<and> layerThickness > 0"
  then have m: "modelLoaded s" and t: "layerThickness \<noteq> 0" by simp_all
  from m obtain g box b pos where l: "geometry s = Some g" "boundingBox s = Some box"
    "bvhSlicer s = Some b" "positionAttr (heap s g) = Some pos"
    by (auto simp: modelLoaded_def split: option.splits)
  show "\<exists>layers s' c'. sliceModel s axis layerThickness onProgress c = (Inr layers, s', c')"
    by (intro exI) (rule sliceModel_loaded [OF l t])
next
  fix layers s' c' l
  assume r: "sliceModel s axis layerThickness onProgress c = (Inr layers, s', c')"
    and m: "l \<in> set layers"
  from sliceModel_Inr [OF r] m obtain start adj where rd: "sliceReady s'"
    and ls: "layers = map (layerAt s' axis start adj) [0..<length layers]"
    by auto
  from m ls obtain i where li: "l = layerAt s' axis start adj i"
    by (metis (no_types, lifting) imageE list.set_map)
  show b: "layerBounds l = computePathBounds (layerPaths l)"
    by (simp add: li layerAt_def Let_def)
  show "concat (layerPaths l) = [] \<Longrightarrow> layerBounds l = \<lparr>minX = 0, maxX = 0, minY = 0, maxY = 0\<rparr>"
    unfolding b by (rule computePathBounds_empty)
  {
    assume ne: "concat (layerPaths l) \<noteq> []"
    show "minX (layerBounds l) = Min (vx ` set (concat (layerPaths l)))"
      "maxX (layerBounds l) = Max (vx ` set (concat (layerPaths l)))"
      "minY (layerBounds l) = Min (vy ` set (concat (layerPaths l)))"
      "maxY (layerBounds l) = Max (vy ` set (concat (layerPaths l)))"
      unfolding b computePathBounds_nonempty [OF ne] by simp_all
  }
  {
    fix b
    assume e: "bvhSlicer s' = Some b
                  \<and> sliceAtPlane (heap s' (bvhGeometry b)) (bvh b) (layerZ l) axis = []"
    from rd obtain g box where "geometry s' = Some g" "boundingBox s' = Some box"
      by (auto simp: sliceReady_def)
    with e have "createSlice s' (layerZ l) axis = Inr []"
      by (simp add: createSlice_def buildPaths_def)
    moreover have "layerPaths l = projr (createSlice s' (layerZ l) axis)"
      by (simp add: li layerAt_def Let_def)
    ultimately show "layerPaths l = []" by simp
    then show "layerBounds l = \<lparr>minX = 0, maxX = 0, minY = 0, maxY = 0\<rparr>"
      by (simp add: b computePathBounds_def)
  }
qed

lemma report_fold:
  "foldl (report (Some f) count) c todo
     = foldl (\<lambda>c v. f v c) c (map (\<lambda>i. (real (i + 1) / real count) * 100) todo)"
  by (induction todo arbitrary: c) (simp_all add: report_def)

lemma progressValues_sorted: "sorted (progressValues count)"
  unfolding progressValues_def
  by (auto simp: sorted_iff_nth_mono divide_right_mono)

lemma progressValues_last: "count > 0 \<Longrightarrow> last (progressValues count) = 100"
  unfolding progressValues_def
  by (simp add: last_map last_upt)

text \<open>
  \<^bold>\<open>C8.\<close> With a progress callback \<open>f\<close>, a run on a loaded model calls \<open>f\<close> once after each
  layer, in order, with \<open>((i + 1) / layerCount) * 100\<close> after layer \<open>i\<close>: the caller's state at
  the end is the fold of \<open>f\<close> over these values. There are as many calls as layers, the values
  never decrease, and the last one is \<open>100\<close>. (\<open>layerCount\<close> is the count the run computes.)
\<close>

theorem progress_reports:
  fixes s :: StlSlicer and axis :: Axis and layerThickness :: real and box :: Box3
  assumes "modelLoaded s" and "boundingBox s = Some box" and "layerThickness > 0"
  defines "layerCount \<equiv>
    nat (max 2 \<lceil>fl (fl (axisCoord axis (bmax box) - axisCoord axis (bmin box))
                       / layerThickness)\<rceil>)"
  shows "\<exists>layers s'.
           sliceModel s axis layerThickness (Some f) c
             = (Inr layers, s', foldl (\<lambda>c v. f v c) c (progressValues layerCount))
           \<and> length layers = layerCount
           \<and> length (progressValues layerCount) = layerCount
           \<and> (\<forall>i < layerCount.
                 progressValues layerCount ! i = (real (i + 1) / real layerCount) * 100)
           \<and> sorted (progressValues layerCount)
           \<and> last (progressValues layerCount) = 100"
proof -
  from assms(1) obtain g box' b pos where l: "geometry s = Some g" "boundingBox s = Some box'"
    "bvhSlicer s = Some b" "positionAttr (heap s g) = Some pos"
    by (rule modelLoadedE)
  have t: "layerThickness \<noteq> 0" using assms(3) by simp
  have n: "layerCount > 0" by (simp add: layerCount_def)
  note m = sliceModel_loaded [OF l(1) assms(2) l(3) l(4) t, of axis "Some f" c,
      folded layerCount_def]
  show ?thesis
    using n
    by (simp add: m report_fold progressValues_sorted progressValues_last)
       (simp add: progressValues_def)
qed

text \<open>The state a call leaves behind, whatever its outcome.\<close>

lemma sliceModel_state:
  assumes "sliceModel s axis layerThickness onProgress c = (r, s', c')"
  shows "s' = (case geometry s of None \<Rightarrow> s | Some g \<Rightarrow>
                (case boundingBox s of None \<Rightarrow> s | Some box \<Rightarrow>
                (case positionAttr (heap s g) of None \<Rightarrow> s | Some pos \<Rightarrow>
                   (if indexAttr (heap s g) = None
                    then s\<lparr>heap := (heap s)
                                 (g := (heap s g)\<lparr>indexAttr := Some [0..<length pos]\<rparr>)\<rparr>
                    else s))))"
  using assms unfolding sliceModel_def
  by (auto simp: Let_def split: option.splits JSCount.splits sum.splits prod.splits if_splits)

lemma loadFromBuffers_eq:
  "loadFromBuffers s r tree positionArray indexArray boundingBoxMin boundingBoxMax =
     s\<lparr>heap := (heap s)(r := \<lparr>positionAttr = Some positionArray, indexAttr = Some indexArray\<rparr>),
       geometry := Some r,
       boundingBox := Some \<lparr>bmin = boundingBoxMin, bmax = boundingBoxMax\<rparr>,
       bvhSlicer := Some \<lparr>bvh = tree, bvhGeometry = r\<rparr>\<rparr>"
  by (simp add: loadFromBuffers_def newBVHSlicer_def Let_def)

lemma loadFromBuffers_loaded:
  "modelLoaded (loadFromBuffers s r tree positionArray indexArray boundingBoxMin boundingBoxMax)"
  by (simp add: modelLoaded_def loadFromBuffers_eq)

subsection \<open>A run leaves the slicer as it was\<close>

text \<open>
  Both loaders and the constructor of \<^verbatim>\<open>BVHSlicer\<close> give the geometry an index list before
  the slicer refers to it, and nothing takes it away again. The branch of \<^verbatim>\<open>sliceModel\<close> that
  writes an index list (``although we should have done this in loadSTL'') is therefore never
  taken.
\<close>

lemma newSlicer_indexed: "indexed newSlicer"
  by (simp add: indexed_def newSlicer_def)

lemma loadFromBuffers_indexed:
  "indexed (loadFromBuffers s r tree positionArray indexArray boundingBoxMin boundingBoxMax)"
  by (simp add: indexed_def loadFromBuffers_eq)

lemma loadSTL_indexed: "indexed (loadSTL s r tree parsed box)"
  by (auto simp: indexed_def loadSTL_def newBVHSlicer_def Let_def split: option.splits)

lemma indexed_unchanged:
  assumes "indexed s" and "sliceModel s axis layerThickness onProgress c = (r, s', c')"
  shows "s' = s"
  using assms(1) unfolding sliceModel_state [OF assms(2)]
  by (auto simp: indexed_def split: option.splits)

lemma sliceModel_indexed:
  assumes "indexed s"
  shows "indexed (fst (snd (sliceModel s axis layerThickness onProgress c)))"
proof -
  let ?r = "sliceModel s axis layerThickness onProgress c"
  have "?r = (fst ?r, fst (snd ?r), snd (snd ?r))" by (metis prod.collapse)
  from indexed_unchanged [OF assms this] assms show ?thesis by simp
qed

lemma reachable_indexed: "reachable s \<Longrightarrow> indexed s"
  by (induction rule: reachable.induct)
     (simp_all add: newSlicer_indexed loadSTL_indexed loadFromBuffers_indexed sliceModel_indexed)

text \<open>
  \<^bold>\<open>C9.\<close> Whatever loads and runs came before, a call to \<^verbatim>\<open>sliceModel\<close> leaves the slicer as
  it found it, whether it returns layers or throws: the store of geometries (so the position
  buffer and the index list of the loaded geometry), the bounding box and every other field are
  as before the call.
\<close>

theorem sliceModel_frame:
  assumes "reachable s"
    and "sliceModel s axis layerThickness onProgress c = (r, s', c')"
  shows "s' = s
         \<and> (\<forall>g. geometry s = Some g \<longrightarrow>
                positionAttr (heap s' g) = positionAttr (heap s g)
                \<and> indexAttr (heap s' g) = indexAttr (heap s g))
         \<and> boundingBox s' = boundingBox s"
  using indexed_unchanged [OF reachable_indexed [OF assms(1)] assms(2)] by simp

chapter \<open>Worked examples\<close>

section \<open>Worked slices\<close>

text \<open>
  The examples below are cut from a model whose bounding-box diagonal is \<open>100000\<close>, so that
  the merge tolerance is \<open>1\<close>, the zero-length filter \<open>1/10\<close>, the minimum path length \<open>100\<close>
  and the fallback radius \<open>10\<close>. Their points are placed so that every distance the code
  computes runs along an axis.
\<close>

lemma tol_values:
  "TOLERANCE 100000 = 1" "ZERO_LENGTH_TOL 100000 = 1 / 10" "MIN_PATH_LENGTH 100000 = 100"
  "FALLBACK_RADIUS 100000 = 10"
  by (simp_all add: TOLERANCE_def ZERO_LENGTH_TOL_def MIN_PATH_LENGTH_def FALLBACK_RADIUS_def
      safeDiag_def)

lemmas graph_eval = buildGraph_def addSegment_def getNodeIndex_def getPointKey_def js_round_def
  addConnection_def setAdd_def Let_def

lemmas pass1_eval = contourStep_def chooseBestConnection_def node_def setUsed_def
  traceContour.simps Let_def

lemmas pass2_eval = remainingStep_def node_def setUsed_def findBestNextNode_def bestNextStep_def
  setAdd_def extendWalk.simps closeIfConnected_def Let_def

lemmas fallback_eval = fallbackStep_def findClosestSegment_def segmentEnds_def closestStep_def
  segEnd_def extendChain.simps Let_def

lemma atan2_axes:
  "0 < a \<Longrightarrow> atan2 0 a = 0" "a < 0 \<Longrightarrow> atan2 0 a = pi"
  "0 < a \<Longrightarrow> atan2 a 0 = pi / 2" "a < 0 \<Longrightarrow> atan2 a 0 = - (pi / 2)"
  by (simp_all add: atan2_def)

lemmas angle_eval = angleStep_def angleDiff_def atan2_axes

lemma upt3: "[0..<3] = [0, 1, 2]"
  by (simp add: upt_rec)

lemma upt2: "[0..<2] = [0, 1]"
  by (simp add: upt_rec)

lemma upt8: "[0..<8] = [0, 1, 2, 3, 4, 5, 6, 7]"
  by (simp add: upt_rec)

lemma upt4: "[0..<4] = [0, 1, 2, 3]"
  by (simp add: upt_rec)

lemma upt5: "[0..<5] = [0, 1, 2, 3, 4]"
  by (simp add: upt_rec)

subsection \<open>Two small parts, far apart\<close>

lemma twoPart_segments: "toSegments Z (1 / 10) twoPartEdges = twoPartSegments"
  by (simp add: toSegments_def twoPartEdges_def twoPartSegments_def List.map_filter_def
      ofVector3_def distanceTo_same_y)

lemma twoPart_graph: "nodes (buildGraph 1 twoPartSegments) = twoPartNodes"
  by (simp add: graph_eval twoPartSegments_def twoPartNodes_def)

lemma twoPart_startOrder: "startOrder twoPartNodes = [0, 1, 2, 3, 4, 5, 6, 7]"
  by (simp add: startOrder_def degree_def node_def twoPartNodes_def upt8)

lemma twoPart_contours: "findContours 100000 4 twoPartNodes = (twoPartNodes, [])"
  unfolding findContours_def twoPart_startOrder
  by (simp add: pass1_eval tol_values twoPartNodes_def distanceTo_same_y)

lemma twoPart_remaining:
  "handleRemainingSegments 100000 m (twoPartNodes, []) = (twoPartNodes, [])"
  unfolding handleRemainingSegments_def
  by (simp add: pass2_eval twoPartNodes_def upt8 tol_values distanceTo_same_y)

lemma twoPart_graphPaths: "graphPaths 100000 twoPartSegments = []"
proof -
  have len: "length twoPartSegments = 4" by (simp add: twoPartSegments_def)
  show ?thesis
    unfolding graphPaths_def Let_def tol_values twoPart_graph len twoPart_contours
      twoPart_remaining
    by simp
qed

lemma twoPart_fallback:
  "fallbackPaths 10 twoPartSegments =
     [[Vector2 0 0, Vector2 20 0, Vector2 40 0], [Vector2 1000 0, Vector2 1020 0, Vector2 1040 0]]"
  unfolding fallbackPaths_def
  by (simp add: twoPartSegments_def upt4 fallback_eval distanceTo_same_y)

lemma twoPart_points:
  "segmentPoints twoPartSegments {0, 1} = {Vector2 0 0, Vector2 20 0, Vector2 22 0, Vector2 40 0}"
  "segmentPoints twoPartSegments (- {0, 1})
     = {Vector2 1000 0, Vector2 1020 0, Vector2 1022 0, Vector2 1040 0}"
  by (auto simp: segmentPoints_def twoPartSegments_def segEnd_def less_Suc_eq numeral_eq_Suc
      nth_Cons')

lemma twoPart_separated: "separated 10 twoPartSegments {0, 1}"
  unfolding separated_def twoPart_points
  by (simp add: distanceTo_same_y)

theorem fallback_keeps_components_apart_witness:
  "graphPaths 100000 twoPartSegments = []
   \<and> separated (FALLBACK_RADIUS 100000) twoPartSegments {0, 1}
   \<and> buildPaths twoPartEdges Z 100000
       = [[Vector2 0 0, Vector2 20 0, Vector2 40 0],
          [Vector2 1000 0, Vector2 1020 0, Vector2 1040 0]]
   \<and> (set [Vector2 0 0, Vector2 20 0, Vector2 40 0] \<subseteq> segmentPoints twoPartSegments {0, 1}
        \<or> set [Vector2 0 0, Vector2 20 0, Vector2 40 0]
             \<subseteq> segmentPoints twoPartSegments (- {0, 1}))
   \<and> (set [Vector2 1000 0, Vector2 1020 0, Vector2 1040 0]
          \<subseteq> segmentPoints twoPartSegments {0, 1}
        \<or> set [Vector2 1000 0, Vector2 1020 0, Vector2 1040 0]
             \<subseteq> segmentPoints twoPartSegments (- {0, 1}))"
proof -
  have s: "toSegments Z (ZERO_LENGTH_TOL 100000) twoPartEdges = twoPartSegments"
    by (simp add: tol_values twoPart_segments)
  have p: "separated (FALLBACK_RADIUS 100000) twoPartSegments {0, 1}"
    unfolding tol_values by (rule twoPart_separated)
  have "buildPaths twoPartEdges Z 100000
          = map (finalCleanup 1) (fallbackPaths 10 twoPartSegments)"
    using buildPaths_fallback [OF s twoPart_graphPaths] by (simp add: tol_values)
  then have b: "buildPaths twoPartEdges Z 100000
       = [[Vector2 0 0, Vector2 20 0, Vector2 40 0],
          [Vector2 1000 0, Vector2 1020 0, Vector2 1040 0]]"
    by (simp add: twoPart_fallback finalCleanup_def Let_def distanceTo_same_y)
  from fallback_keeps_components_apart [OF s twoPart_graphPaths p]
  have "\<forall>path \<in> set (buildPaths twoPartEdges Z 100000).
          set path \<subseteq> segmentPoints twoPartSegments {0, 1}
          \<or> set path \<subseteq> segmentPoints twoPartSegments (- {0, 1})"
    by blast
  then show ?thesis
    unfolding b using twoPart_graphPaths p by simp
qed

subsection \<open>A small closed loop\<close>

lemma loop_segments: "toSegments Z (1 / 10) loopEdges = loopSegments"
  by (simp add: toSegments_def loopEdges_def loopSegments_def List.map_filter_def
      ofVector3_def distanceTo_same_y distanceTo_same_x)

lemma loop_graph: "nodes (buildGraph 1 loopSegments) = loopNodes"
  by (simp add: graph_eval loopSegments_def loopNodes_def)

lemma loop_startOrder: "startOrder loopNodes = [0, 1, 2, 3]"
  by (simp add: startOrder_def degree_def node_def loopNodes_def upt4)

lemma loop_contours: "findContours 100000 4 loopNodes = (loopNodes, [])"
  unfolding findContours_def loop_startOrder
  by (simp add: pass1_eval angle_eval tol_values loopNodes_def distanceTo_same_y distanceTo_same_x)

lemma loop_remaining:
  "handleRemainingSegments 100000 m (loopNodes, []) = (loopNodes, [])"
  unfolding handleRemainingSegments_def
  by (simp add: pass2_eval loopNodes_def upt4 tol_values distanceTo_same_y distanceTo_same_x)

lemma loop_graphPaths: "graphPaths 100000 loopSegments = []"
proof -
  have len: "length loopSegments = 4" by (simp add: loopSegments_def)
  show ?thesis
    unfolding graphPaths_def Let_def tol_values loop_graph len loop_contours loop_remaining
    by simp
qed

lemma loop_fallback:
  "fallbackPaths 10 loopSegments =
     [[Vector2 0 0, Vector2 3 0, Vector2 3 3, Vector2 0 3, Vector2 0 0]]"
  unfolding fallbackPaths_def
  by (simp add: loopSegments_def upt4 fallback_eval distanceTo_same_y distanceTo_same_x
      distanceTo_not_neg distanceTo_self)

text \<open>
  \<^bold>\<open>C2\<close> on the small loop. Both graph passes trace the square and reject it, its length \<open>12\<close>
  being below the minimum path length \<open>100\<close>; \<^verbatim>\<open>paths\<close> is then empty, the fallback chains the
  four segments, accepts the path on its point count alone, and \<^verbatim>\<open>buildPaths\<close> returns it.
\<close>

theorem fallback_emits_short_path:
  "graphPaths 100000 loopSegments = []
   \<and> buildPaths loopEdges Z 100000
       = [[Vector2 0 0, Vector2 3 0, Vector2 3 3, Vector2 0 3, Vector2 0 0]]
   \<and> pathLength [Vector2 0 0, Vector2 3 0, Vector2 3 3, Vector2 0 3, Vector2 0 0] = 12
   \<and> MIN_PATH_LENGTH 100000 = 100"
proof -
  have s: "toSegments Z (ZERO_LENGTH_TOL 100000) loopEdges = loopSegments"
    by (simp add: tol_values loop_segments)
  have "buildPaths loopEdges Z 100000
          = map (finalCleanup 1) (fallbackPaths 10 loopSegments)"
    using buildPaths_fallback [OF s loop_graphPaths] by (simp add: tol_values)
  then have "buildPaths loopEdges Z 100000
       = [[Vector2 0 0, Vector2 3 0, Vector2 3 3, Vector2 0 3, Vector2 0 0]]"
    by (simp add: loop_fallback finalCleanup_def Let_def distanceTo_self)
  then show ?thesis
    by (simp add: loop_graphPaths tol_values distanceTo_same_y distanceTo_same_x Let_def)
qed

subsection \<open>An outline that ends next to its start\<close>

lemma snap_segments: "toSegments Z (1 / 10) snapEdges = snapSegments"
  by (simp add: toSegments_def snapEdges_def snapSegments_def List.map_filter_def
      ofVector3_def distanceTo_same_y distanceTo_same_x)

lemma snap_graph: "nodes (buildGraph 1 snapSegments) = snapNodes"
  by (simp add: graph_eval snapSegments_def snapNodes_def)

lemma snap_startOrder: "startOrder snapNodes = [0, 4, 1, 2, 3]"
  by (simp add: startOrder_def degree_def node_def snapNodes_def upt5)

lemma snap_contours:
  "findContours 100000 4 snapNodes = (map (\<lambda>n. n\<lparr>used := True\<rparr>) snapNodes, [snapPath])"
  unfolding findContours_def snap_startOrder
  by (simp add: pass1_eval angle_eval tol_values snapNodes_def snapPath_def
      distanceTo_same_y distanceTo_same_x)

lemma snap_remaining:
  "handleRemainingSegments 100000 m (map (\<lambda>n. n\<lparr>used := True\<rparr>) snapNodes, [snapPath])
     = (map (\<lambda>n. n\<lparr>used := True\<rparr>) snapNodes, [snapPath])"
  unfolding handleRemainingSegments_def
  by (simp add: snapNodes_def)

lemma snap_produced: "producedPaths 100000 snapSegments = [snapPath]"
proof -
  have len: "length snapSegments = 4" by (simp add: snapSegments_def)
  have "graphPaths 100000 snapSegments = [snapPath]"
    unfolding graphPaths_def Let_def tol_values snap_graph len snap_contours snap_remaining
    by simp
  then show ?thesis by (simp add: producedPaths_def)
qed

text \<open>The first pass traces the outline as one open path, and the final pass snaps it
  shut.\<close>

lemma snap_buildPaths: "buildPaths snapEdges Z 100000 = [snapPath @ [Vector2 0 (2 / 5)]]"
proof -
  have s: "toSegments Z (ZERO_LENGTH_TOL 100000) snapEdges = snapSegments"
    by (simp add: tol_values snap_segments)
  have ne: "snapSegments \<noteq> []" by (simp add: snapSegments_def)
  have "finalCleanup (TOLERANCE 100000) snapPath = snapPath @ [snapPath ! 0]"
    by (rule finalCleanup_snaps) (simp_all add: snapPath_def tol_values distanceTo_same_x)
  then have f: "finalCleanup (TOLERANCE 100000) snapPath = snapPath @ [Vector2 0 (2 / 5)]"
    by (simp add: snapPath_def)
  show ?thesis
    unfolding buildPaths_cleanup s snap_produced using ne by (simp add: f)
qed

subsection \<open>An open chain\<close>

lemma tol_values_half:
  "TOLERANCE 50000 = 1 / 2" "ZERO_LENGTH_TOL 50000 = 1 / 20" "MIN_PATH_LENGTH 50000 = 50"
  "FALLBACK_RADIUS 50000 = 5"
  by (simp_all add: TOLERANCE_def ZERO_LENGTH_TOL_def MIN_PATH_LENGTH_def FALLBACK_RADIUS_def
      safeDiag_def)

lemma chain_segments:
  "toSegments Z (1 / 10) chainEdges = chainSegments"
  "toSegments Z (1 / 20) chainEdges = chainSegments"
  by (simp_all add: toSegments_def chainEdges_def chainSegments_def List.map_filter_def
      ofVector3_def distanceTo_same_y)

lemma chain_graph:
  "nodes (buildGraph 1 chainSegments) = chainNodes"
  "nodes (buildGraph (1 / 2) chainSegments) = chainNodes"
  by (simp_all add: graph_eval chainSegments_def chainNodes_def)

lemma chain_startOrder: "startOrder chainNodes = [0, 2, 1]"
  by (simp add: startOrder_def degree_def node_def chainNodes_def upt3)

lemma chain_contours_large: "findContours 100000 2 chainNodes = (chainNodes, [])"
  unfolding findContours_def chain_startOrder
  by (simp add: pass1_eval angle_eval tol_values chainNodes_def distanceTo_same_y)

lemma chain_remaining_large:
  "handleRemainingSegments 100000 m (chainNodes, [])
     = (map (\<lambda>n. n\<lparr>used := True\<rparr>) chainNodes, [chainDoubled])"
  unfolding handleRemainingSegments_def
  by (simp add: pass2_eval chainNodes_def chainDoubled_def upt3 tol_values distanceTo_same_y
      distanceTo_self)

lemma chain_contours_small:
  "findContours 50000 2 chainNodes = (map (\<lambda>n. n\<lparr>used := True\<rparr>) chainNodes, [chainPath])"
  unfolding findContours_def chain_startOrder
  by (simp add: pass1_eval angle_eval tol_values_half chainNodes_def chainPath_def
      distanceTo_same_y)

lemma chain_remaining_small:
  "handleRemainingSegments 50000 m (map (\<lambda>n. n\<lparr>used := True\<rparr>) chainNodes, [chainPath])
     = (map (\<lambda>n. n\<lparr>used := True\<rparr>) chainNodes, [chainPath])"
  unfolding handleRemainingSegments_def
  by (simp add: chainNodes_def)

lemma chain_produced_large: "producedPaths 100000 chainSegments = [chainDoubled]"
proof -
  have len: "length chainSegments = 2" by (simp add: chainSegments_def)
  have "graphPaths 100000 chainSegments = [chainDoubled]"
    unfolding graphPaths_def Let_def tol_values chain_graph len chain_contours_large
      chain_remaining_large
    by simp
  then show ?thesis by (simp add: producedPaths_def)
qed

lemma chain_produced_small: "producedPaths 50000 chainSegments = [chainPath]"
proof -
  have len: "length chainSegments = 2" by (simp add: chainSegments_def)
  have "graphPaths 50000 chainSegments = [chainPath]"
    unfolding graphPaths_def Let_def tol_values_half chain_graph len chain_contours_small
      chain_remaining_small
    by simp
  then show ?thesis by (simp add: producedPaths_def)
qed

text \<open>
  \<^bold>\<open>C7.\<close> The claim is what the passes are written to do (the comments of the second pass:
  ``Open path --- keep as-is, don't force-close'', and of the final pass: ``Open paths from
  non-manifold geometry are preserved as open''), and the second pass misses it. The ends of the
  chain are \<open>60\<close> apart, far more than the tolerance \<open>1\<close>, and no segment joins them. With the
  bounding-box diagonal \<open>100000\<close> the first pass rejects the chain (its length \<open>60\<close> is below the
  minimum \<open>100\<close>), the second pass walks it forwards and again backwards, and \<^verbatim>\<open>buildPaths\<close>
  returns it as a path that runs from one end to the other and back, first point equal to
  last. With the diagonal \<open>50000\<close> the first pass accepts the same chain and returns it open.
\<close>

theorem second_pass_returns_chain_closed:
  "nodes (buildGraph (TOLERANCE 100000) chainSegments) = chainNodes
   \<and> distanceTo (Vector2 0 0) (Vector2 60 0) > TOLERANCE 100000
   \<and> 2 \<notin> set (connections (chainNodes ! 0)) \<and> 0 \<notin> set (connections (chainNodes ! 2))
   \<and> buildPaths chainEdges Z 100000
       = [[Vector2 60 0, Vector2 30 0, Vector2 0 0, Vector2 30 0, Vector2 60 0]]
   \<and> buildPaths chainEdges Z 50000 = [[Vector2 0 0, Vector2 30 0, Vector2 60 0]]"
proof -
  have s1: "toSegments Z (ZERO_LENGTH_TOL 100000) chainEdges = chainSegments"
    by (simp add: tol_values chain_segments)
  have s2: "toSegments Z (ZERO_LENGTH_TOL 50000) chainEdges = chainSegments"
    by (simp add: tol_values_half chain_segments)
  have ne: "chainSegments \<noteq> []" by (simp add: chainSegments_def)
  have b1: "buildPaths chainEdges Z 100000 = [chainDoubled]"
    unfolding buildPaths_cleanup s1 chain_produced_large
    using ne by (simp add: finalCleanup_def Let_def chainDoubled_def distanceTo_self)
  have b2: "buildPaths chainEdges Z 50000 = [chainPath]"
    unfolding buildPaths_cleanup s2 chain_produced_small
    using ne by (simp add: finalCleanup_def Let_def chainPath_def tol_values_half
        distanceTo_same_y)
  show ?thesis
    using b1 b2
    by (simp add: tol_values chain_graph chainNodes_def chainDoubled_def chainPath_def
        distanceTo_same_y)
qed

section \<open>A worked run of sliceModel\<close>

lemma wall_diagonal: "vlength (getSize wallBox) = 50"
proof -
  have "sqrt (2500 :: real) = sqrt (50 ^ 2)" by simp
  also have "\<dots> = 50" by (simp only: real_sqrt_abs abs_numeral)
  finally show ?thesis
    by (simp add: vlength_def getSize_def isEmpty_def wallBox_def)
qed

lemma wall_tol:
  "TOLERANCE 50 = 1 / 2000" "ZERO_LENGTH_TOL 50 = 1 / 20000" "MIN_PATH_LENGTH 50 = 1 / 20"
  "FALLBACK_RADIUS 50 = 1 / 200"
  by (simp_all add: TOLERANCE_def ZERO_LENGTH_TOL_def MIN_PATH_LENGTH_def FALLBACK_RADIUS_def
      safeDiag_def)

lemmas plane_eval = sliceAtPlane_def intersectsBounds_def intersectsTriangle_def
  intersectionPoints_def checkEdge_def EDGE_EPS_def lerpVectors_def List.map_filter_def Let_def
  fl_exact

lemma wall_cut_mid:
  "sliceAtPlane wallGeometry (BVHLeaf wallBox wallTriangles) 20 Z
     = [[Vector3 30 0 20, Vector3 15 0 20], [Vector3 15 0 20, Vector3 0 0 20]]"
  by (simp add: plane_eval wallGeometry_def wallBox_def wallTriangles_def)

lemma wall_cut_bottom:
  "sliceAtPlane wallGeometry (BVHLeaf wallBox wallTriangles) 0 Z
     = [[Vector3 30 0 0, Vector3 0 0 0], [Vector3 0 0 0, Vector3 0 0 0]]"
  by (simp add: plane_eval wallGeometry_def wallBox_def wallTriangles_def)

lemma wall_cut_top:
  "sliceAtPlane wallGeometry (BVHLeaf wallBox wallTriangles) 40 Z
     = [[Vector3 30 0 40, Vector3 30 0 40], [Vector3 30 0 40, Vector3 0 0 40]]"
  by (simp add: plane_eval wallGeometry_def wallBox_def wallTriangles_def)

lemma wall_paths_mid:
  "buildPaths [[ofVector3 (Vector3 30 0 20), ofVector3 (Vector3 15 0 20)], [ofVector3 (Vector3 15 0 20), ofVector3 (Vector3 0 0 20)]] Z 50
     = [[Vector2 30 0, Vector2 15 0, Vector2 0 0]]"
proof -
  let ?segs = "[(Vector2 30 0, Vector2 15 0), (Vector2 15 0, Vector2 0 0)]"
  let ?ns = "[\<lparr>nposition = Vector2 30 0, connections = [1], used = False\<rparr>,
      \<lparr>nposition = Vector2 15 0, connections = [0, 2], used = False\<rparr>,
      \<lparr>nposition = Vector2 0 0, connections = [1], used = False\<rparr>]"
  let ?p = "[Vector2 30 0, Vector2 15 0, Vector2 0 0]"
  have s: "toSegments Z (ZERO_LENGTH_TOL 50)
             [[ofVector3 (Vector3 30 0 20), ofVector3 (Vector3 15 0 20)], [ofVector3 (Vector3 15 0 20), ofVector3 (Vector3 0 0 20)]]
           = ?segs"
    by (simp add: toSegments_def List.map_filter_def ofVector3_def distanceTo_same_y wall_tol)
  have g: "nodes (buildGraph (1 / 2000) ?segs) = ?ns"
    by (simp add: graph_eval)
  have o: "startOrder ?ns = [0, 2, 1]"
    by (simp add: startOrder_def degree_def node_def upt3)
  have c: "findContours 50 2 ?ns = (map (\<lambda>n. n\<lparr>used := True\<rparr>) ?ns, [?p])"
    unfolding findContours_def o
    by (simp add: pass1_eval angle_eval wall_tol distanceTo_same_y)
  have r: "handleRemainingSegments 50 m (map (\<lambda>n. n\<lparr>used := True\<rparr>) ?ns, [?p])
             = (map (\<lambda>n. n\<lparr>used := True\<rparr>) ?ns, [?p])" for m
    unfolding handleRemainingSegments_def by simp
  have len: "length ?segs = 2" by simp
  have "graphPaths 50 ?segs = [?p]"
    unfolding graphPaths_def Let_def wall_tol g len c r by simp
  then have "producedPaths 50 ?segs = [?p]" by (simp add: producedPaths_def)
  then show ?thesis
    unfolding buildPaths_cleanup s
    by (simp add: finalCleanup_def Let_def wall_tol distanceTo_same_y)
qed

lemma wall_produced_edge:
  "producedPaths 50 [(Vector2 30 0, Vector2 0 0)] = [[Vector2 0 0, Vector2 30 0, Vector2 0 0]]"
proof -
  let ?segs = "[(Vector2 30 0, Vector2 0 0)]"
  let ?ns = "[\<lparr>nposition = Vector2 30 0, connections = [1], used = False\<rparr>,
      \<lparr>nposition = Vector2 0 0, connections = [0], used = False\<rparr>]"
  let ?p = "[Vector2 0 0, Vector2 30 0, Vector2 0 0]"
  have g: "nodes (buildGraph (1 / 2000) ?segs) = ?ns"
    by (simp add: graph_eval)
  have o: "startOrder ?ns = [0, 1]"
    by (simp add: startOrder_def degree_def node_def upt2)
  have c: "findContours 50 1 ?ns = (?ns, [])"
    unfolding findContours_def o
    by (simp add: pass1_eval wall_tol distanceTo_same_y)
  have r: "snd (handleRemainingSegments 50 m (?ns, [])) = [?p]" for m
    unfolding handleRemainingSegments_def
    by (simp add: pass2_eval upt2 wall_tol distanceTo_same_y distanceTo_self)
  have len: "length ?segs = 1" by simp
  have "graphPaths 50 ?segs = [?p]"
    unfolding graphPaths_def Let_def wall_tol g len c r by simp
  then show ?thesis by (simp add: producedPaths_def)
qed

lemma wall_paths_bottom:
  "buildPaths [[ofVector3 (Vector3 30 0 0), ofVector3 (Vector3 0 0 0)], [ofVector3 (Vector3 0 0 0), ofVector3 (Vector3 0 0 0)]] Z 50
     = [[Vector2 0 0, Vector2 30 0, Vector2 0 0]]"
proof -
  have s: "toSegments Z (ZERO_LENGTH_TOL 50)
             [[ofVector3 (Vector3 30 0 0), ofVector3 (Vector3 0 0 0)], [ofVector3 (Vector3 0 0 0), ofVector3 (Vector3 0 0 0)]]
           = [(Vector2 30 0, Vector2 0 0)]"
    by (simp add: toSegments_def List.map_filter_def ofVector3_def distanceTo_same_y wall_tol)
  show ?thesis
    unfolding buildPaths_cleanup s wall_produced_edge
    by (simp add: finalCleanup_def Let_def distanceTo_self)
qed

lemma wall_paths_top:
  "buildPaths [[ofVector3 (Vector3 30 0 40), ofVector3 (Vector3 30 0 40)], [ofVector3 (Vector3 30 0 40), ofVector3 (Vector3 0 0 40)]] Z 50
     = [[Vector2 0 0, Vector2 30 0, Vector2 0 0]]"
proof -
  have s: "toSegments Z (ZERO_LENGTH_TOL 50)
             [[ofVector3 (Vector3 30 0 40), ofVector3 (Vector3 30 0 40)], [ofVector3 (Vector3 30 0 40), ofVector3 (Vector3 0 0 40)]]
           = [(Vector2 30 0, Vector2 0 0)]"
    by (simp add: toSegments_def List.map_filter_def ofVector3_def distanceTo_same_y wall_tol)
  show ?thesis
    unfolding buildPaths_cleanup s wall_produced_edge
    by (simp add: finalCleanup_def Let_def distanceTo_self)
qed

lemma wall_fields:
  "geometry wallSlicer = Some 0" "boundingBox wallSlicer = Some wallBox"
  "bvhSlicer wallSlicer = Some \<lparr>bvh = BVHLeaf wallBox wallTriangles, bvhGeometry = 0\<rparr>"
  "heap wallSlicer 0 = wallGeometry"
  by (simp_all add: wallSlicer_def loadFromBuffers_eq newSlicer_def wallBox_def wallGeometry_def)

lemma wall_createSlice:
  "createSlice wallSlicer 0 Z = Inr [[Vector2 0 0, Vector2 30 0, Vector2 0 0]]"
  "createSlice wallSlicer 20 Z = Inr [[Vector2 30 0, Vector2 15 0, Vector2 0 0]]"
  "createSlice wallSlicer 40 Z = Inr [[Vector2 0 0, Vector2 30 0, Vector2 0 0]]"
  by (simp_all add: createSlice_def wall_fields wall_cut_bottom wall_cut_mid wall_cut_top
      wall_diagonal wall_paths_bottom wall_paths_mid wall_paths_top)

lemma wall_loaded: "modelLoaded wallSlicer"
  by (simp add: modelLoaded_def wall_fields wallGeometry_def)

lemma fl_8_3: "fl (8 / 3) = 6004799503160661 / 2251799813685248"
  by (subst fl_eval [of 1]) (simp_all add: fl_binade)

lemma wall_sliceModel:
  "sliceModel wallSlicer Z 15 (Some logProgress) []
     = (Inr wallLayers, wallSlicer, [100 / 3, 200 / 3, 100])"
proof -
  have n: "max 2 \<lceil>fl (fl (axisCoord Z (bmax wallBox) - axisCoord Z (bmin wallBox)) / 15)\<rceil>
             = (3 :: int)"
    by (simp add: wallBox_def fl_exact fl_8_3)
  have i: "indexAttr (heap wallSlicer 0) \<noteq> None"
    by (simp add: wall_fields wallGeometry_def)
  have "sliceModel wallSlicer Z 15 (Some logProgress) []
     = (Inr (map (layerAt wallSlicer Z 0 20) [0..<3]), wallSlicer,
        foldl (report (Some logProgress) 3) [] [0..<3])"
    using sliceModel_loaded [of wallSlicer 0 wallBox _ _ 15 Z "Some logProgress" "[]"]
      i
    unfolding n
    by (simp add: wall_fields wallGeometry_def wallBox_def fl_exact)
  then show ?thesis
    by (simp add: upt3 layerAt_def report_def wall_createSlice wallLayers_def Let_def
        computePathBounds_def logProgress_def fl_exact)
qed

theorem progress_reports_witness:
  "modelLoaded wallSlicer \<and> boundingBox wallSlicer = Some wallBox
   \<and> sliceModel wallSlicer Z 15 (Some logProgress) []
       = (Inr wallLayers, wallSlicer, [100 / 3, 200 / 3, 100])
   \<and> progressValues 3 = [100 / 3, 200 / 3, 100]
   \<and> sorted (progressValues 3) \<and> last (progressValues 3) = 100"
proof -
  have b: "boundingBox wallSlicer = Some wallBox" by (simp add: wall_fields)
  have n: "nat (max 2 \<lceil>fl (fl (axisCoord Z (bmax wallBox) - axisCoord Z (bmin wallBox)) / 15)\<rceil>)
             = 3"
    by (simp add: wallBox_def fl_exact fl_8_3)
  have v: "progressValues 3 = [100 / 3, 200 / 3, 100]"
    by (simp add: progressValues_def upt3)
  from progress_reports [OF wall_loaded b, of 15 Z logProgress "[]"]
  have "sorted (progressValues 3) \<and> last (progressValues 3) = 100"
    unfolding n by auto
  then show ?thesis
    using wall_loaded b wall_sliceModel v by blast
qed

lemma tall_fields:
  "geometry tallSlicer = Some 0"
  "boundingBox tallSlicer = Some \<lparr>bmin = Vector3 0 0 0, bmax = Vector3 30 0 80\<rparr>"
  "bvhSlicer tallSlicer = Some \<lparr>bvh = BVHLeaf wallBox wallTriangles, bvhGeometry = 0\<rparr>"
  "heap tallSlicer 0 = wallGeometry"
  by (simp_all add: tallSlicer_def loadFromBuffers_eq newSlicer_def wallGeometry_def)

lemma tall_loaded: "modelLoaded tallSlicer"
  by (simp add: modelLoaded_def tall_fields wallGeometry_def)

lemma tall_cut_top: "sliceAtPlane wallGeometry (BVHLeaf wallBox wallTriangles) 80 Z = []"
  by (simp add: plane_eval wallGeometry_def wallBox_def)

theorem layer_bounds_witness:
  "modelLoaded wallSlicer
   \<and> sliceModel wallSlicer Z 15 (Some logProgress) []
       = (Inr wallLayers, wallSlicer, [100 / 3, 200 / 3, 100])
   \<and> layerBounds (wallLayers ! 1) = computePathBounds (layerPaths (wallLayers ! 1))
   \<and> layerPaths (wallLayers ! 1) = [[Vector2 30 0, Vector2 15 0, Vector2 0 0]]
   \<and> layerBounds (wallLayers ! 1) = \<lparr>minX = 0, maxX = 30, minY = 0, maxY = 0\<rparr>
   \<and> minX (layerBounds (wallLayers ! 1)) = Min {30, 15, 0}
   \<and> maxX (layerBounds (wallLayers ! 1)) = Max {30, 15, 0}
   \<and> modelLoaded tallSlicer
   \<and> (\<exists>layers s' c'.
         sliceModel tallSlicer Z 30 (None :: (real \<Rightarrow> unit \<Rightarrow> unit) option) () = (Inr layers, s', c')
         \<and> length layers = 3 \<and> layerZ (layers ! 2) = 80
         \<and> layerPaths (layers ! 2) = []
         \<and> layerBounds (layers ! 2) = \<lparr>minX = 0, maxX = 0, minY = 0, maxY = 0\<rparr>)"
proof -
  let ?l = "wallLayers ! 1"
  have m: "?l \<in> set wallLayers" by (simp add: wallLayers_def)
  have ne: "concat (layerPaths ?l) \<noteq> []" by (simp add: wallLayers_def)
  from layer_bounds [of wallSlicer 15 Z "Some logProgress" "[]"] wall_sliceModel m
  have "layerBounds ?l = computePathBounds (layerPaths ?l)
        \<and> (concat (layerPaths ?l) \<noteq> [] \<longrightarrow>
                minX (layerBounds ?l) = Min (vx ` set (concat (layerPaths ?l)))
                \<and> maxX (layerBounds ?l) = Max (vx ` set (concat (layerPaths ?l)))
                \<and> minY (layerBounds ?l) = Min (vy ` set (concat (layerPaths ?l)))
                \<and> maxY (layerBounds ?l) = Max (vy ` set (concat (layerPaths ?l))))"
    by blast
  with ne have 1: "layerBounds ?l = computePathBounds (layerPaths ?l)
      \<and> minX (layerBounds ?l) = Min (vx ` set (concat (layerPaths ?l)))
      \<and> maxX (layerBounds ?l) = Max (vx ` set (concat (layerPaths ?l)))"
    by blast
  have p: "layerPaths ?l = [[Vector2 30 0, Vector2 15 0, Vector2 0 0]]"
    "layerBounds ?l = \<lparr>minX = 0, maxX = 30, minY = 0, maxY = 0\<rparr>"
    by (simp_all add: wallLayers_def)
  have i: "vx ` set (concat (layerPaths ?l)) = {30, 15, 0}"
    unfolding p(1) by simp
  have 2: "minX (layerBounds ?l) = Min {30, 15, 0}" "maxX (layerBounds ?l) = Max {30, 15, 0}"
    using 1 unfolding i by blast+
  note t = layer_bounds [of tallSlicer 30 Z "None :: (real \<Rightarrow> unit \<Rightarrow> unit) option" "()"]
  from t tall_loaded obtain layers s' c' where
    r: "sliceModel tallSlicer Z 30 (None :: (real \<Rightarrow> unit \<Rightarrow> unit) option) () = (Inr layers, s', c')"
    by auto
  have ld: "sliceModel tallSlicer Z 30 (None :: (real \<Rightarrow> unit \<Rightarrow> unit) option) ()
              = (Inr (map (layerAt tallSlicer Z 0 40) [0..<3]), tallSlicer,
                 foldl (report None 3) () [0..<3])"
    using sliceModel_loaded [of tallSlicer 0 "\<lparr>bmin = Vector3 0 0 0, bmax = Vector3 30 0 80\<rparr>"
        "\<lparr>bvh = BVHLeaf wallBox wallTriangles, bvhGeometry = 0\<rparr>" _ 30 Z None "()"]
    by (simp add: tall_fields wallGeometry_def fl_exact fl_8_3)
  with r have ls: "layers = map (layerAt tallSlicer Z 0 40) [0..<3]" and s': "s' = tallSlicer"
    by simp_all
  from ls have len: "length layers = 3" and z: "layerZ (layers ! 2) = 80"
    and mem: "layers ! 2 \<in> set layers"
    by (simp_all add: upt3 layerAt_def Let_def fl_exact)
  have bv: "bvhSlicer s' = Some \<lparr>bvh = BVHLeaf wallBox wallTriangles, bvhGeometry = 0\<rparr>
            \<and> sliceAtPlane (heap s' (bvhGeometry \<lparr>bvh = BVHLeaf wallBox wallTriangles, bvhGeometry = 0\<rparr>))
                 (bvh \<lparr>bvh = BVHLeaf wallBox wallTriangles, bvhGeometry = 0\<rparr>) (layerZ (layers ! 2)) Z = []"
    by (simp add: s' z tall_fields tall_cut_top)
  from t r mem bv have "layerPaths (layers ! 2) = []
       \<and> layerBounds (layers ! 2) = \<lparr>minX = 0, maxX = 0, minY = 0, maxY = 0\<rparr>"
    by blast
  with r len z have "\<exists>layers s' c'.
         sliceModel tallSlicer Z 30 (None :: (real \<Rightarrow> unit \<Rightarrow> unit) option) () = (Inr layers, s', c')
         \<and> length layers = 3 \<and> layerZ (layers ! 2) = 80
         \<and> layerPaths (layers ! 2) = []
         \<and> layerBounds (layers ! 2) = \<lparr>minX = 0, maxX = 0, minY = 0, maxY = 0\<rparr>"
    by blast
  with 1 2 p wall_loaded tall_loaded wall_sliceModel show ?thesis by blast
qed

subsection \<open>The wall sliced along x\<close>

text \<open>
  Along \<open>x\<close> the wall reaches from \<open>0\<close> to \<open>30\<close>. With a layer thickness of \<open>1\<close> the run makes
  \<open>30\<close> layers, with the adjusted thickness \<open>30 / 29\<close> rounded (upwards). The product
  \<open>29 * adjustedLayerThickness\<close> lies above \<open>30\<close> and is rounded away from it, to the next double
  after \<open>30\<close>.
\<close>

lemma thirty_adjusted: "fl (30 / 29) = 4658896166245341 / 4503599627370496"
  by (subst fl_eval [of 0]) (simp_all add: fl_binade)

lemma thirty_last: "fl (29 * (4658896166245341 / 4503599627370496)) = 30 + 1 / 2 ^ 48"
  by (subst fl_eval [of 4]) (simp_all add: fl_binade)

lemma thirty_sum: "fl (30 + 1 / 2 ^ 48) = 30 + 1 / 2 ^ 48"
  using fl_int_div [of "30 * 2 ^ 48 + 1" 48] by (simp add: add_divide_distrib)

text \<open>The cut at \<open>x = 30\<close> is the right-hand edge of the wall; beyond \<open>30\<close> the tree offers no
  triangle.\<close>

lemma wall_cut_side:
  "sliceAtPlane wallGeometry (BVHLeaf wallBox wallTriangles) 30 X
     = [[Vector3 30 0 0, Vector3 30 0 40], [Vector3 30 0 40, Vector3 30 0 40]]"
  by (simp add: plane_eval wallGeometry_def wallBox_def wallTriangles_def)

lemma wall_produced_side:
  "producedPaths 50 [(Vector2 0 0, Vector2 0 40)] = [[Vector2 0 40, Vector2 0 0, Vector2 0 40]]"
proof -
  let ?segs = "[(Vector2 0 0, Vector2 0 40)]"
  let ?ns = "[\<lparr>nposition = Vector2 0 0, connections = [1], used = False\<rparr>,
      \<lparr>nposition = Vector2 0 40, connections = [0], used = False\<rparr>]"
  let ?p = "[Vector2 0 40, Vector2 0 0, Vector2 0 40]"
  have g: "nodes (buildGraph (1 / 2000) ?segs) = ?ns"
    by (simp add: graph_eval)
  have o: "startOrder ?ns = [0, 1]"
    by (simp add: startOrder_def degree_def node_def upt2)
  have c: "findContours 50 1 ?ns = (?ns, [])"
    unfolding findContours_def o
    by (simp add: pass1_eval wall_tol distanceTo_same_x)
  have r: "snd (handleRemainingSegments 50 m (?ns, [])) = [?p]" for m
    unfolding handleRemainingSegments_def
    by (simp add: pass2_eval upt2 wall_tol distanceTo_same_x distanceTo_self)
  have len: "length ?segs = 1" by simp
  have "graphPaths 50 ?segs = [?p]"
    unfolding graphPaths_def Let_def wall_tol g len c r by simp
  then show ?thesis by (simp add: producedPaths_def)
qed

lemma wall_paths_side:
  "buildPaths [[ofVector3 (Vector3 30 0 0), ofVector3 (Vector3 30 0 40)], [ofVector3 (Vector3 30 0 40), ofVector3 (Vector3 30 0 40)]] X 50
     = [[Vector2 0 40, Vector2 0 0, Vector2 0 40]]"
proof -
  have s: "toSegments X (ZERO_LENGTH_TOL 50)
             [[ofVector3 (Vector3 30 0 0), ofVector3 (Vector3 30 0 40)], [ofVector3 (Vector3 30 0 40), ofVector3 (Vector3 30 0 40)]]
           = [(Vector2 0 0, Vector2 0 40)]"
    by (simp add: toSegments_def List.map_filter_def ofVector3_def distanceTo_same_x wall_tol)
  show ?thesis
    unfolding buildPaths_cleanup s wall_produced_side
    by (simp add: finalCleanup_def Let_def distanceTo_self)
qed

lemma wall_side: "createSlice wallSlicer 30 X = Inr [[Vector2 0 40, Vector2 0 0, Vector2 0 40]]"
  by (simp add: createSlice_def wall_fields wall_cut_side wall_diagonal wall_paths_side)

lemma wall_beyond: "30 < z \<Longrightarrow> createSlice wallSlicer z X = Inr []"
  by (simp add: createSlice_def wall_fields sliceAtPlane_def intersectsBounds_def wallBox_def
      wallGeometry_def buildPaths_def)

text \<open>
  \<^bold>\<open>C1.\<close> The claim is what the code sets out to do (its comments: ``This ensures we have
  slices that perfectly match the model bounds'', ``slices from start to end (inclusive)''), and
  the code misses it. The wall, sliced along \<open>x\<close> with layer thickness \<open>1\<close>, gives \<open>30\<close> layers
  with ascending index, but the last one does not lie at \<open>end = 30\<close>: its position is
  \<open>30 + 2\<^sup>-\<^sup>4\<^sup>8\<close> (printed \<^verbatim>\<open>30.000000000000004\<close>), beyond the model. No triangle reaches that
  plane, whether or not the tree prunes it, and the layer has no paths, whereas the slice at
  \<open>30\<close> is the edge of the wall.
\<close>

theorem last_layer_beyond_end:
  "axisCoord X (bmin wallBox) = 0 \<and> axisCoord X (bmax wallBox) = 30
   \<and> (\<exists>layers.
         sliceModel wallSlicer X 1 (None :: (real \<Rightarrow> unit \<Rightarrow> unit) option) ()
           = (Inr layers, wallSlicer, ())
         \<and> length layers = 30
         \<and> layerIndex (layers ! 29) = 29
         \<and> layerZ (layers ! 0) = 0
         \<and> layerZ (layers ! 29) = 30 + 1 / 2 ^ 48
         \<and> layerPaths (layers ! 29) = [])
   \<and> List.map_filter (intersectsTriangle X (30 + 1 / 2 ^ 48)) wallTriangles = []
   \<and> createSlice wallSlicer 30 X = Inr [[Vector2 0 40, Vector2 0 0, Vector2 0 40]]"
proof -
  let ?adj = "4658896166245341 / 4503599627370496 :: real"
  let ?layers = "map (layerAt wallSlicer X 0 ?adj) [0..<30]"
  have i: "indexAttr (heap wallSlicer 0) \<noteq> None"
    by (simp add: wall_fields wallGeometry_def)
  have m: "sliceModel wallSlicer X 1 (None :: (real \<Rightarrow> unit \<Rightarrow> unit) option) ()
             = (Inr ?layers, wallSlicer, ())"
    using sliceModel_loaded [of wallSlicer 0 wallBox _ _ 1 X None "()"] i thirty_adjusted
    by (simp add: wall_fields wallGeometry_def wallBox_def fl_exact)
  have n: "?layers ! 29 = layerAt wallSlicer X 0 ?adj 29" by simp
  have a: "layerZ (layerAt wallSlicer X 0 a 29) = fl (fl (29 * a))" for a
    by (simp add: layerAt_def Let_def)
  have z: "layerZ (?layers ! 29) = 30 + 1 / 2 ^ 48"
    by (simp only: n a thirty_last thirty_sum)
  have "layerPaths (?layers ! 29) = projr (createSlice wallSlicer (layerZ (?layers ! 29)) X)"
    by (simp add: layerAt_def Let_def)
  also have "\<dots> = []"
    unfolding z by (simp add: wall_beyond)
  finally have p: "layerPaths (?layers ! 29) = []" .
  have "length ?layers = 30 \<and> layerIndex (?layers ! 29) = 29 \<and> layerZ (?layers ! 0) = 0"
    by (simp add: layerAt_def Let_def fl_exact)
  with m z p have "\<exists>layers.
         sliceModel wallSlicer X 1 (None :: (real \<Rightarrow> unit \<Rightarrow> unit) option) ()
           = (Inr layers, wallSlicer, ())
         \<and> length layers = 30
         \<and> layerIndex (layers ! 29) = 29
         \<and> layerZ (layers ! 0) = 0
         \<and> layerZ (layers ! 29) = 30 + 1 / 2 ^ 48
         \<and> layerPaths (layers ! 29) = []"
    by blast
  moreover have "List.map_filter (intersectsTriangle X (30 + 1 / 2 ^ 48)) wallTriangles = []"
    by (simp add: List.map_filter_def wallTriangles_def intersectsTriangle_def
        intersectionPoints_def checkEdge_def Let_def)
  ultimately show ?thesis by (simp add: wall_side wallBox_def)
qed

subsection \<open>Runs after a load\<close>

lemma stl_fields:
  "geometry stlSlicer = Some 0" "boundingBox stlSlicer = Some wallBox"
  "positionAttr (heap stlSlicer 0) = Some bareVertices"
  "indexAttr (heap stlSlicer 0) \<noteq> None"
  by (simp_all add: stlSlicer_def loadSTL_def newBVHSlicer_def bareGeometry_def Let_def)

theorem sliceModel_frame_witness:
  "reachable wallSlicer
   \<and> sliceModel wallSlicer Z 15 (Some logProgress) []
       = (Inr wallLayers, wallSlicer, [100 / 3, 200 / 3, 100])
   \<and> reachable stlSlicer
   \<and> indexAttr bareGeometry = None \<and> indexAttr (heap stlSlicer 0) \<noteq> None
   \<and> fst (snd (sliceModel stlSlicer Z 15 (None :: (real \<Rightarrow> unit \<Rightarrow> unit) option) ()))
       = stlSlicer"
proof -
  have w: "reachable wallSlicer"
    unfolding wallSlicer_def by (intro reachable.intros)
  have b: "reachable stlSlicer"
    unfolding stlSlicer_def by (intro reachable.intros)
  let ?r = "sliceModel stlSlicer Z 15 (None :: (real \<Rightarrow> unit \<Rightarrow> unit) option) ()"
  have e: "?r = (fst ?r, fst (snd ?r), snd (snd ?r))" by (metis prod.collapse)
  from sliceModel_frame [OF w wall_sliceModel] sliceModel_frame [OF b e]
  have "fst (snd ?r) = stlSlicer" by simp
  moreover have "indexAttr bareGeometry = None" by (simp add: bareGeometry_def)
  ultimately show ?thesis using w b wall_sliceModel stl_fields(4) by blast
qed

end
